theory Spec2Isabelle
  imports Complex_Main "HOL-Library.Word"
begin

unbundle bit_operations_syntax

section \<open>The XM playback engine: sequencer, effect processor and mixer\<close>

text \<open>
  The embedding follows the Go sources: the stream (\<open>Stream\<close>, its \<open>Read\<close>, \<open>Rewind\<close>,
  \<open>nextTick\<close>, \<open>nextRow\<close>, \<open>readTick\<close> and the effect functions), the voice
  (\<open>streamChannel\<close> with \<open>assignNote\<close>) and the \<open>xmfile\<close> flag types.

  Conventions of the model:
  \<^item> \<open>float64\<close> is \<open>real\<close>: comparisons and truncations are exact, additions and
    multiplications are the unrounded ones, and there is no NaN or infinity (a division by
    0.0 is HOL's \<open>x / 0 = 0\<close>). Concrete inputs below use dyadic values on which the
    float64 operations are exact.
  \<^item> Go's \<open>int\<close> is \<open>int\<close> (the 64-bit wrap-around would need 2^63 steps to show);
    \<open>uint8\<close> is \<open>8 word\<close>, \<open>int16\<close> is \<open>16 word\<close>.
  \<^item> a run-time panic is a value of type \<open>panic\<close>, returned as \<open>Inl\<close>;
  \<^item> a loop that may spin forever is a \<^theory_text>\<open>partial_function (option)\<close>: \<open>None\<close>
    means that the Go code never returns;
  \<^item> a pointer that may be \<open>nil\<close> is an \<open>option\<close>; instruments and patterns are
    immutable after compilation, so a pointer to one is modelled by its value.
\<close>

subsection \<open>Go primitives\<close>

datatype panic = IndexOutOfRange | SliceBoundsOutOfRange | NilDereference | DivideByZero

text \<open>\<open>io.EOF\<close>, the only error value the documentation of \<open>Read\<close> mentions.\<close>

datatype ioerror = EOF

text \<open>Conversion \<open>int(x)\<close> of a float64: truncation towards zero.\<close>

definition go_int :: "real \<Rightarrow> int" where
  "go_int x = (if 0 \<le> x then \<lfloor>x\<rfloor> else \<lceil>x\<rceil>)"

text \<open>Go's \<open>a % b\<close> on integers for \<open>b \<noteq> 0\<close>: the remainder has the sign of \<open>a\<close>.\<close>

definition go_rem :: "int \<Rightarrow> int \<Rightarrow> int" where
  "go_rem a b = sgn a * (\<bar>a\<bar> mod \<bar>b\<bar>)"

text \<open>
  Conversion \<open>int16(x)\<close> of a float64: truncation; for a value outside the int16 range Go
  leaves the result to the implementation, the model wraps.
\<close>

definition go_int16 :: "real \<Rightarrow> 16 word" where
  "go_int16 x = word_of_int (go_int x)"

text \<open>Conversion \<open>uint8(i)\<close> of an int: the low 8 bits.\<close>

definition go_uint8 :: "int \<Rightarrow> 8 word" where
  "go_uint8 i = word_of_int i"

text \<open>
  Modelled from the spec: \<open>clamp\<close> and \<open>clampMin\<close> are not among the sources; the spec
  says that values are clamped into the given interval.
\<close>

definition clamp :: "real \<Rightarrow> real \<Rightarrow> real \<Rightarrow> real" where
  "clamp v lo hi = (if v < lo then lo else if v > hi then hi else v)"

definition clampMin :: "real \<Rightarrow> real \<Rightarrow> real" where
  "clampMin v lo = (if v < lo then lo else v)"

text \<open>
  \<open>binary.LittleEndian.PutUint16(b[i:], v)\<close>: slicing panics when \<open>i\<close> is beyond the
  length, the write panics when fewer than two bytes are left.
\<close>

definition putUint16 :: "8 word list \<Rightarrow> int \<Rightarrow> 16 word \<Rightarrow> panic + 8 word list" where
  "putUint16 b i v =
     (if i < 0 \<or> int (length b) < i then Inl SliceBoundsOutOfRange
      else if int (length b) - i < 2 then Inl IndexOutOfRange
      else Inr (b[nat i := ucast v, nat i + 1 := ucast (drop_bit 8 v)]))"

subsection \<open>Package xmfile: loop types and envelope flags\<close>

datatype SampleLoopType =
  SampleLoopNone | SampleLoopForward | SampleLoopPingPong | SampleLoopUnknown

type_synonym EnvelopeFlags = "8 word"

definition IsOn :: "EnvelopeFlags \<Rightarrow> bool" where
  "IsOn f = (f AND (push_bit 0 1) \<noteq> 0)"

definition SustainEnabled :: "EnvelopeFlags \<Rightarrow> bool" where
  "SustainEnabled f = (f AND (push_bit 1 1) \<noteq> 0)"

definition LoopEnabled :: "EnvelopeFlags \<Rightarrow> bool" where
  "LoopEnabled f = (f AND (push_bit 2 1) \<noteq> 0)"

subsection \<open>The compiled module\<close>

text \<open>
  The declarations of the compiled module (\<open>module\<close>, \<open>pattern\<close>, \<open>patternNote\<close>,
  \<open>instrument\<close>, \<open>envelope\<close>, \<open>effectKey\<close>, the effect table entry and the \<open>xmdb\<close>
  opcodes) are not among the sources. The records below hold exactly the fields that the
  stream code reads, with the types its expressions force; each field keeps the source's
  name behind a prefix for its record.
\<close>

text \<open>Modelled from the spec: an envelope is an ordered list of points (tick, value).\<close>

record envelope =
  env_points :: "(real \<times> real) list"

definition envelope0 :: envelope where
  "envelope0 = \<lparr>env_points = []\<rparr>"

record instrument =
  i_samples :: "int list"
  i_loopType :: SampleLoopType
  i_loopStart :: real
  i_loopEnd :: real
  i_loopLength :: real
  i_volume :: real
  i_panning :: real
  i_volumeFlags :: EnvelopeFlags
  i_volumeFadeoutStep :: real
  i_volumeEnvelope :: envelope
  i_panningEnvelope :: envelope

text \<open>
  Modelled from the spec: an effect key is an offset and a count into the effect table;
  \<open>Index\<close> and \<open>Len\<close> read them, and the key is empty when it covers no command.
\<close>

record effectKey =
  ek_Index :: nat
  ek_Len :: nat

definition IsEmpty :: "effectKey \<Rightarrow> bool" where
  "IsEmpty k = (ek_Len k = 0)"

definition effectKey0 :: effectKey where
  "effectKey0 = \<lparr>ek_Index = 0, ek_Len = 0\<rparr>"

datatype effectOp =
  EffectSetVolume | EffectKeyOff | EffectVolumeSlide | EffectPatternBreak | EffectArpeggio
  | EffectOther nat

record effect =
  e_op :: effectOp
  e_rawValue :: "8 word"
  e_floatValue :: real
  e_arp :: "int list"

text \<open>
  The note kinds and flags that \<open>assignNote\<close> consults. \<open>Kind()\<close> is a method of the
  missing declaration: the model takes its result as the field \<open>n_Kind\<close>.
\<close>

datatype noteKind = noteEmpty | noteNormal | noteGhost | noteGhostInstrument

datatype noteFlag = noteValid | noteHasNotePortamento

record patternNote =
  n_inst :: "instrument option"
  n_period :: real
  n_effect :: effectKey
  n_flags :: "noteFlag set"
  n_Kind :: noteKind

definition Contains :: "noteFlag set \<Rightarrow> noteFlag \<Rightarrow> bool" where
  "Contains fl f = (f \<in> fl)"

record pattern =
  p_numRows :: int
  p_numChannels :: int
  p_notes :: "patternNote list"

record module =
  m_sampleRate :: real
  m_ticksPerRow :: int
  m_samplesPerTick :: real
  m_bytesPerTick :: int
  m_patternOrder :: "pattern list"
  m_effectTab :: "effect list"

subsection \<open>Voice state (stream_channel.go)\<close>

record envelopeRunner =
  er_envelope :: envelope
  er_value :: real
  er_frame :: int

text \<open>
  The struct \<open>streamChannel\<close>. The stream code also reads and writes \<open>ch.sustain\<close> and
  \<open>ch.arpeggioTicked\<close>, which the declaration in stream\_channel.go does not list; they are
  the last two fields here. The field \<open>note\<close> is \<open>ch_note\<close> and \<open>id\<close> is \<open>ch_id\<close>.
\<close>

record streamChannel =
  inst :: "instrument option"
  ch_note :: "patternNote option"
  period :: real
  sampleStep :: real
  effect :: effectKey
  keyOn :: bool
  panning :: real
  sampleOffset :: real
  volume :: real
  fadeoutVolume :: real
  computedVolume :: "real \<times> real"
  arpeggioRunning :: bool
  arpeggioNoteOffset :: real
  panningSlideValue :: real
  volumeSlideValue :: real
  portamentoUpValue :: real
  portamentoDownValue :: real
  notePortamentoTargetPeriod :: real
  notePortamentoValue :: real
  vibratoRunning :: bool
  vibratoPeriodOffset :: real
  vibratoDepth :: real
  vibratoStep :: "8 word"
  vibratoSpeed :: "8 word"
  reverse :: bool
  volumeEnvelope :: envelopeRunner
  panningEnvelope :: envelopeRunner
  ch_id :: int
  sustain :: bool
  arpeggioTicked :: bool

text \<open>The zero value \<open>streamChannel{}\<close>, which \<open>Reset\<close> stores.\<close>

definition envelopeRunner0 :: envelopeRunner where
  "envelopeRunner0 = \<lparr>er_envelope = envelope0, er_value = 0, er_frame = 0\<rparr>"

definition streamChannel0 :: streamChannel where
  "streamChannel0 =
     \<lparr>inst = None, ch_note = None, period = 0, sampleStep = 0, effect = effectKey0,
      keyOn = False, panning = 0, sampleOffset = 0, volume = 0, fadeoutVolume = 0,
      computedVolume = (0, 0), arpeggioRunning = False, arpeggioNoteOffset = 0,
      panningSlideValue = 0, volumeSlideValue = 0, portamentoUpValue = 0,
      portamentoDownValue = 0, notePortamentoTargetPeriod = 0, notePortamentoValue = 0,
      vibratoRunning = False, vibratoPeriodOffset = 0, vibratoDepth = 0, vibratoStep = 0,
      vibratoSpeed = 0, reverse = False, volumeEnvelope = envelopeRunner0,
      panningEnvelope = envelopeRunner0, ch_id = 0, sustain = False,
      arpeggioTicked = False\<rparr>"

definition Reset :: "streamChannel \<Rightarrow> streamChannel" where
  "Reset ch = streamChannel0"

definition resetEnvelopes :: "streamChannel \<Rightarrow> streamChannel" where
  "resetEnvelopes ch =
     ch\<lparr>fadeoutVolume := 1,
        volumeEnvelope := (volumeEnvelope ch)\<lparr>er_value := 1, er_frame := 0\<rparr>,
        panningEnvelope := (panningEnvelope ch)\<lparr>er_value := 1/2, er_frame := 0\<rparr>\<rparr>"

text \<open>
  \<open>assignNote\<close>, statement by statement. The only panic is the dereference of \<open>n.inst\<close>
  for a normal note.
\<close>

definition assignNote :: "streamChannel \<Rightarrow> patternNote \<Rightarrow> panic + streamChannel" where
  "assignNote ch0 n =
     (let ch1 = ch0\<lparr>ch_note := Some n, effect := n_effect n\<rparr>;
          noteKind = n_Kind n
      in if noteKind = noteEmpty then Inr ch1
         else
           let hasNotePortamento = Contains (n_flags n) noteHasNotePortamento in
           case (if \<not> hasNotePortamento \<and> noteKind = noteNormal
                 then (case n_inst n of
                         None \<Rightarrow> Inl NilDereference
                       | Some i \<Rightarrow>
                           Inr (ch1\<lparr>inst := Some i,
                                  volumeEnvelope :=
                                    (volumeEnvelope ch1)\<lparr>er_envelope := i_volumeEnvelope i\<rparr>,
                                  panningEnvelope :=
                                    (panningEnvelope ch1)\<lparr>er_envelope := i_panningEnvelope i\<rparr>\<rparr>))
                 else Inr ch1) of
             Inl e \<Rightarrow> Inl e
           | Inr ch2 \<Rightarrow>
               let ch3 = resetEnvelopes (ch2\<lparr>vibratoPeriodOffset := 0, keyOn := True\<rparr>);
                   ch4 = (if \<not> hasNotePortamento \<and> Contains (n_flags n) noteValid
                          then ch3\<lparr>period := n_period n\<rparr> else ch3);
                   ch5 = (if \<not> hasNotePortamento \<and> noteKind \<noteq> noteGhostInstrument
                          then ch4\<lparr>sampleOffset := 0, reverse := False\<rparr> else ch4)
               in case inst ch5 of
                    None \<Rightarrow> Inr ch5
                  | Some i \<Rightarrow>
                      Inr ((if noteKind \<noteq> noteGhost then ch5\<lparr>volume := i_volume i\<rparr> else ch5)
                             \<lparr>panning := i_panning i\<rparr>))"

subsection \<open>The stream\<close>

datatype jumpKind = jumpNone | jumpPatternBreak

record Stream =
  module :: module
  pattern :: "pattern option"
  patternIndex :: int
  patternRowsRemain :: int
  patternRowIndex :: int
  rowTicksRemain :: int
  tickIndex :: int
  jumpKind :: jumpKind
  jumpPattern :: int
  jumpRow :: int
  volumeScaling :: real
  channels :: "streamChannel list"

definition module0 :: module where
  "module0 = \<lparr>m_sampleRate = 0, m_ticksPerRow = 0, m_samplesPerTick = 0, m_bytesPerTick = 0,
              m_patternOrder = [], m_effectTab = []\<rparr>"

definition NewStream :: Stream where
  "NewStream =
     \<lparr>module = module0, pattern = None, patternIndex = 0, patternRowsRemain = 0,
      patternRowIndex = 0, rowTicksRemain = 0, tickIndex = 0, jumpKind = jumpNone,
      jumpPattern = 0, jumpRow = 0, volumeScaling = 8/10, channels = []\<rparr>"

definition SetVolume :: "Stream \<Rightarrow> real \<Rightarrow> Stream" where
  "SetVolume s v = s\<lparr>volumeScaling := clamp v 0 1\<rparr>"

definition Rewind :: "Stream \<Rightarrow> Stream" where
  "Rewind s =
     s\<lparr>patternIndex := -1, patternRowsRemain := 0, patternRowIndex := -1,
       rowTicksRemain := 0, tickIndex := -1\<rparr>"

text \<open>
  The part of \<open>LoadModule\<close> after \<open>compileModule\<close> (which is not among the sources) has
  produced the compiled module: the channel slice is cut to \<open>numChannels\<close> voices, a new
  zeroed array being made only when the capacity does not suffice (the capacity is the
  length here), and the stream is rewound.
\<close>

definition LoadCompiled :: "Stream \<Rightarrow> module \<Rightarrow> nat \<Rightarrow> Stream" where
  "LoadCompiled s compiled numChannels =
     Rewind (s\<lparr>channels := (if length (channels s) < numChannels
                              then replicate numChannels streamChannel0
                              else take numChannels (channels s)),
               module := compiled\<rparr>)"

subsection \<open>Effects\<close>

definition keyOff :: "streamChannel \<Rightarrow> streamChannel" where
  "keyOff ch0 =
     (let ch = ch0\<lparr>sustain := False\<rparr>
      in if (case inst ch of None \<Rightarrow> True | Some i \<Rightarrow> \<not> IsOn (i_volumeFlags i))
         then ch\<lparr>volume := 0\<rparr> else ch)"

text \<open>
  The slice \<open>s.module.effectTab[offset : offset+numEffects]\<close> that both effect phases
  range over (the capacity of the table is its length).
\<close>

definition effectSlice :: "Stream \<Rightarrow> streamChannel \<Rightarrow> panic + effect list" where
  "effectSlice s ch =
     (let numEffects = ek_Len (effect ch); offset = ek_Index (effect ch)
      in if offset + numEffects \<le> length (m_effectTab (module s))
         then Inr (take numEffects (drop offset (m_effectTab (module s))))
         else Inl SliceBoundsOutOfRange)"

text \<open>The body of the \<open>switch\<close> of \<open>applyRowEffect\<close>, for one table entry.\<close>

definition rowEffect :: "effect \<Rightarrow> Stream \<times> streamChannel \<Rightarrow> Stream \<times> streamChannel" where
  "rowEffect e sc =
     (let s = fst sc; ch = snd sc
      in case e_op e of
           EffectSetVolume \<Rightarrow> (s, ch\<lparr>volume := e_floatValue e\<rparr>)
         | EffectKeyOff \<Rightarrow> (if e_rawValue e \<noteq> 0 then (s, ch) else (s, keyOff ch))
         | EffectVolumeSlide \<Rightarrow>
             (if e_floatValue e \<noteq> 0 then (s, ch\<lparr>volumeSlideValue := e_floatValue e\<rparr>)
              else (s, ch))
         | EffectPatternBreak \<Rightarrow>
             (s\<lparr>jumpKind := jumpPatternBreak, jumpPattern := patternIndex s + 1,
                jumpRow := uint (e_rawValue e)\<rparr>, ch)
         | _ \<Rightarrow> (s, ch))"

definition applyRowEffect :: "Stream \<Rightarrow> streamChannel \<Rightarrow> panic + Stream \<times> streamChannel" where
  "applyRowEffect s ch =
     (case effectSlice s ch of
        Inl p \<Rightarrow> Inl p
      | Inr es \<Rightarrow> Inr (fold rowEffect es (s, ch)))"

text \<open>The body of the \<open>switch\<close> of \<open>applyTickEffect\<close>, for one table entry.\<close>

definition tickEffect :: "Stream \<Rightarrow> effect \<Rightarrow> streamChannel \<Rightarrow> panic + streamChannel" where
  "tickEffect s e ch =
     (case e_op e of
        EffectKeyOff \<Rightarrow>
          (if e_rawValue e \<noteq> go_uint8 (tickIndex s) then Inr ch else Inr (keyOff ch))
      | EffectArpeggio \<Rightarrow>
          (let i = go_rem (tickIndex s) 3
           in if i < 0 \<or> int (length (e_arp e)) \<le> i then Inl IndexOutOfRange
              else Inr (ch\<lparr>arpeggioNoteOffset := real_of_int (e_arp e ! nat i),
                          arpeggioRunning := (i \<noteq> 0),
                          arpeggioTicked := True\<rparr>))
      | EffectVolumeSlide \<Rightarrow>
          (if tickIndex s = 0 then Inr ch
           else Inr (ch\<lparr>volume := clamp (volume ch + volumeSlideValue ch) 0 1\<rparr>))
      | _ \<Rightarrow> Inr ch)"

fun tickEffects :: "Stream \<Rightarrow> effect list \<Rightarrow> streamChannel \<Rightarrow> panic + streamChannel" where
  "tickEffects s [] ch = Inr ch"
| "tickEffects s (e # es) ch =
     (case tickEffect s e ch of Inl p \<Rightarrow> Inl p | Inr ch' \<Rightarrow> tickEffects s es ch')"

definition applyTickEffect :: "Stream \<Rightarrow> streamChannel \<Rightarrow> panic + streamChannel" where
  "applyTickEffect s ch =
     (case effectSlice s ch of
        Inl p \<Rightarrow> Inl p
      | Inr es \<Rightarrow> tickEffects s es ch)"

subsection \<open>Sequencer\<close>

definition selectPattern :: "Stream \<Rightarrow> int \<Rightarrow> panic + Stream" where
  "selectPattern s i =
     (if i < 0 \<or> int (length (m_patternOrder (module s))) \<le> i then Inl IndexOutOfRange
      else let p = m_patternOrder (module s) ! nat i
           in Inr (s\<lparr>patternIndex := i, pattern := Some p, patternRowIndex := -1,
                     patternRowsRemain := p_numRows p\<rparr>))"

definition nextPattern :: "Stream \<Rightarrow> panic + Stream" where
  "nextPattern s = selectPattern s (patternIndex s + 1)"

text \<open>
  The body of the channel loop of \<open>nextRow\<close> for the voice \<open>ch\<close> and its note \<open>n\<close>: the
  assignment of the note, written out in \<open>nextRow\<close> itself, then the row effects.
\<close>

definition rowChannel :: "Stream \<Rightarrow> patternNote \<Rightarrow> streamChannel \<Rightarrow> panic + Stream \<times> streamChannel" where
  "rowChannel s n ch0 =
     (let ch =
        (case n_inst n of
           None \<Rightarrow>
             (let ch1 = ch0\<lparr>effect := n_effect n\<rparr>;
                  ch2 = (if n_period n \<noteq> 0 then ch1\<lparr>period := n_period n\<rparr> else ch1)
              in case inst ch2 of
                   None \<Rightarrow> ch2
                 | Some i \<Rightarrow>
                     if sampleOffset ch2 \<ge> real (length (i_samples i))
                     then ch2\<lparr>inst := None\<rparr> else ch2)
         | Some ni \<Rightarrow>
             (let ch1 = (if n_period n \<noteq> 0
                         then ch0\<lparr>sampleOffset := 0, reverse := False, period := n_period n\<rparr>
                         else ch0)
              in ch1\<lparr>effect := n_effect n, volume := i_volume ni, inst := Some ni,
                     sustain := True, fadeoutVolume := 1\<rparr>))
      in if \<not> IsEmpty (effect ch) then applyRowEffect s ch else Inr (s, ch))"

text \<open>
  The channel loop of \<open>nextRow\<close>: voice \<open>i\<close> takes \<open>notes[i]\<close>; a voice without a note in
  the row slice is an index panic.
\<close>

fun rowChannels :: "Stream \<Rightarrow> patternNote list \<Rightarrow> streamChannel list \<Rightarrow> panic + Stream \<times> streamChannel list" where
  "rowChannels s ns [] = Inr (s, [])"
| "rowChannels s [] (ch # chs) = Inl IndexOutOfRange"
| "rowChannels s (n # ns) (ch # chs) =
     (case rowChannel s n ch of
        Inl p \<Rightarrow> Inl p
      | Inr (s', ch') \<Rightarrow>
          (case rowChannels s' ns chs of
             Inl p \<Rightarrow> Inl p
           | Inr (s'', chs') \<Rightarrow> Inr (s'', ch' # chs')))"

text \<open>
  \<open>nextRow\<close>: the position is advanced or the pending jump is taken, then the row slice
  \<open>s.pattern.notes[noteOffset : noteOffset+numChannels]\<close> is cut (a panic when its bounds
  are negative, out of order or beyond the notes, the capacity of the slice being its
  length) and the channel loop runs.
\<close>

definition nextRow :: "Stream \<Rightarrow> panic + Stream" where
  "nextRow s0 =
     (case (if jumpKind s0 = jumpNone
            then (case (if patternRowsRemain s0 = 0 then nextPattern s0 else Inr s0) of
                    Inl p \<Rightarrow> Inl p
                  | Inr s \<Rightarrow> Inr (s\<lparr>patternRowIndex := patternRowIndex s + 1,
                                    patternRowsRemain := patternRowsRemain s - 1\<rparr>))
            else (case selectPattern (s0\<lparr>jumpKind := jumpNone\<rparr>) (jumpPattern s0) of
                    Inl p \<Rightarrow> Inl p
                  | Inr s \<Rightarrow>
                      (case pattern s of
                         None \<Rightarrow> Inl NilDereference
                       | Some pat \<Rightarrow>
                           Inr (s\<lparr>patternRowIndex := jumpRow s,
                                  patternRowsRemain := p_numRows pat - jumpRow s - 1\<rparr>)))) of
        Inl p \<Rightarrow> Inl p
      | Inr s1 \<Rightarrow>
          (case pattern s1 of
             None \<Rightarrow> Inl NilDereference
           | Some pat \<Rightarrow>
               let noteOffset = p_numChannels pat * patternRowIndex s1
               in if noteOffset < 0 \<or> p_numChannels pat < 0
                     \<or> int (length (p_notes pat)) < noteOffset + p_numChannels pat
                  then Inl SliceBoundsOutOfRange
                  else
                    let notes = take (nat (p_numChannels pat)) (drop (nat noteOffset) (p_notes pat));
                        s2 = s1\<lparr>rowTicksRemain := m_ticksPerRow (module s1), tickIndex := -1\<rparr>
                    in case rowChannels s2 notes (channels s2) of
                         Inl p \<Rightarrow> Inl p
                       | Inr (s3, chs) \<Rightarrow> Inr (s3\<lparr>channels := chs\<rparr>)))"

definition envelopeTick :: "streamChannel \<Rightarrow> streamChannel" where
  "envelopeTick ch =
     (case inst ch of
        None \<Rightarrow> ch
      | Some i \<Rightarrow>
          if IsOn (i_volumeFlags i)
          then (if \<not> sustain ch
                then ch\<lparr>fadeoutVolume := clampMin (fadeoutVolume ch - i_volumeFadeoutStep i) 0\<rparr>
                else ch)
          else ch)"

text \<open>
  The body of the channel loop of \<open>nextTick\<close>. \<open>linearFrequency\<close> is not among the
  sources: it is the parameter \<open>lf\<close> of \<open>nextTick\<close> and of everything that calls it.
\<close>

definition tickChannel :: "(real \<Rightarrow> real) \<Rightarrow> Stream \<Rightarrow> streamChannel \<Rightarrow> panic + streamChannel" where
  "tickChannel lf s ch0 =
     (let panning = 1/2;
          ch1 = envelopeTick ch0;
          ch2 = ch1\<lparr>computedVolume :=
                      (volumeScaling s * volume ch1 * fadeoutVolume ch1 * sqrt (1 - panning),
                       volumeScaling s * volume ch1 * fadeoutVolume ch1 * sqrt panning)\<rparr>;
          ch3 = ch2\<lparr>arpeggioTicked := False\<rparr>
      in case (if \<not> IsEmpty (effect ch3) then applyTickEffect s ch3 else Inr ch3) of
           Inl p \<Rightarrow> Inl p
         | Inr ch4 \<Rightarrow>
             let ch5 = (if arpeggioRunning ch4 \<and> \<not> arpeggioTicked ch4
                        then ch4\<lparr>arpeggioRunning := False, arpeggioNoteOffset := 0\<rparr>
                        else ch4);
                 freq = lf (period ch5 - 64 * arpeggioNoteOffset ch5)
             in Inr (ch5\<lparr>sampleStep := freq / m_sampleRate (module s)\<rparr>))"

fun tickChannels :: "(real \<Rightarrow> real) \<Rightarrow> Stream \<Rightarrow> streamChannel list \<Rightarrow> panic + streamChannel list" where
  "tickChannels lf s [] = Inr []"
| "tickChannels lf s (ch # chs) =
     (case tickChannel lf s ch of
        Inl p \<Rightarrow> Inl p
      | Inr ch' \<Rightarrow>
          (case tickChannels lf s chs of
             Inl p \<Rightarrow> Inl p
           | Inr chs' \<Rightarrow> Inr (ch' # chs')))"

definition nextTick :: "(real \<Rightarrow> real) \<Rightarrow> Stream \<Rightarrow> panic + Stream" where
  "nextTick lf s0 =
     (case (if rowTicksRemain s0 = 0 then nextRow s0 else Inr s0) of
        Inl p \<Rightarrow> Inl p
      | Inr s1 \<Rightarrow>
          let s2 = s1\<lparr>rowTicksRemain := rowTicksRemain s1 - 1, tickIndex := tickIndex s1 + 1\<rparr>
          in case tickChannels lf s2 (channels s2) of
               Inl p \<Rightarrow> Inl p
             | Inr chs \<Rightarrow> Inr (s2\<lparr>channels := chs\<rparr>))"

subsection \<open>Mixer\<close>

text \<open>
  The loop \<open>for ch.sampleOffset >= inst.loopEnd { ch.sampleOffset -= inst.loopLength }\<close>
  on the cursor \<open>off\<close>. It does not return when \<open>loopLength\<close> is not positive.
\<close>

partial_function (option) forwardWrap :: "real \<Rightarrow> real \<Rightarrow> real \<Rightarrow> real option" where
  "forwardWrap off loopEnd loopLength =
     (if off \<ge> loopEnd then forwardWrap (off - loopLength) loopEnd loopLength else Some off)"

text \<open>
  The \<open>switch inst.loopType\<close> of \<open>readTick\<close>: the advance of the cursor of one voice by
  one frame. The remainder by \<open>int(inst.loopLength)\<close> panics when that is 0.
\<close>

definition advanceSample :: "instrument \<Rightarrow> streamChannel \<Rightarrow> (panic + streamChannel) option" where
  "advanceSample i ch =
     (case i_loopType i of
        SampleLoopNone \<Rightarrow> Some (Inr (ch\<lparr>sampleOffset := sampleOffset ch + sampleStep ch\<rparr>))
      | SampleLoopForward \<Rightarrow>
          (case forwardWrap (sampleOffset ch + sampleStep ch) (i_loopEnd i) (i_loopLength i) of
             None \<Rightarrow> None
           | Some off \<Rightarrow> Some (Inr (ch\<lparr>sampleOffset := off\<rparr>)))
      | SampleLoopPingPong \<Rightarrow>
          (if reverse ch
           then (let off = sampleOffset ch - sampleStep ch
                 in if off \<le> i_loopStart i
                    then (if go_int (i_loopLength i) = 0 then Some (Inl DivideByZero)
                          else Some (Inr (ch\<lparr>reverse := False,
                                  sampleOffset := real_of_int (go_int (i_loopStart i)
                                     + go_rem (go_int off) (go_int (i_loopLength i)))\<rparr>)))
                    else Some (Inr (ch\<lparr>sampleOffset := off\<rparr>)))
           else (let off = sampleOffset ch + sampleStep ch
                 in if off \<ge> i_loopEnd i
                    then (if go_int (i_loopLength i) = 0 then Some (Inl DivideByZero)
                          else Some (Inr (ch\<lparr>reverse := True,
                                  sampleOffset := real_of_int (go_int (i_loopEnd i)
                                     - go_rem (go_int off) (go_int (i_loopLength i)))\<rparr>)))
                    else Some (Inr (ch\<lparr>sampleOffset := off\<rparr>))))
      | SampleLoopUnknown \<Rightarrow> Some (Inr ch))"

text \<open>
  The body of the channel loop of \<open>readTick\<close> for one voice: the two guards, the read
  \<open>inst.samples[int(ch.sampleOffset)]\<close> with its bounds check, the accumulation into
  \<open>left\<close> and \<open>right\<close>, the advance.
\<close>

definition mixChannel :: "streamChannel \<Rightarrow> 16 word \<Rightarrow> 16 word \<Rightarrow> (panic + 16 word \<times> 16 word \<times> streamChannel) option" where
  "mixChannel ch left right =
     (case inst ch of
        None \<Rightarrow> Some (Inr (left, right, ch))
      | Some i \<Rightarrow>
          if sampleOffset ch > real (length (i_samples i)) then Some (Inr (left, right, ch))
          else
            let k = go_int (sampleOffset ch)
            in if k < 0 \<or> int (length (i_samples i)) \<le> k then Some (Inl IndexOutOfRange)
               else
                 let v = i_samples i ! nat k;
                     left' = left + go_int16 (1/4 * real_of_int v * fst (computedVolume ch));
                     right' = right + go_int16 (1/4 * real_of_int v * snd (computedVolume ch))
                 in case advanceSample i ch of
                      None \<Rightarrow> None
                    | Some (Inl p) \<Rightarrow> Some (Inl p)
                    | Some (Inr ch') \<Rightarrow> Some (Inr (left', right', ch')))"

fun mixChannels :: "streamChannel list \<Rightarrow> 16 word \<Rightarrow> 16 word \<Rightarrow> (panic + 16 word \<times> 16 word \<times> streamChannel list) option" where
  "mixChannels [] left right = Some (Inr (left, right, []))"
| "mixChannels (ch # chs) left right =
     (case mixChannel ch left right of
        None \<Rightarrow> None
      | Some (Inl p) \<Rightarrow> Some (Inl p)
      | Some (Inr (left', right', ch')) \<Rightarrow>
          (case mixChannels chs left' right' of
             None \<Rightarrow> None
           | Some (Inl p) \<Rightarrow> Some (Inl p)
           | Some (Inr (left'', right'', chs')) \<Rightarrow> Some (Inr (left'', right'', ch' # chs'))))"

text \<open>
  The frame loop of \<open>readTick\<close>, \<open>for i := 0; i < n; i += 4\<close>: \<open>k\<close> counts the frames
  that are left, \<open>i\<close> is the byte offset of the next one.
\<close>

fun readFrames :: "nat \<Rightarrow> int \<Rightarrow> streamChannel list \<Rightarrow> 8 word list \<Rightarrow> (panic + 8 word list \<times> streamChannel list) option" where
  "readFrames 0 i chs b = Some (Inr (b, chs))"
| "readFrames (Suc k) i chs b =
     (case mixChannels chs 0 0 of
        None \<Rightarrow> None
      | Some (Inl p) \<Rightarrow> Some (Inl p)
      | Some (Inr (left, right, chs')) \<Rightarrow>
          (case putUint16 b i left of
             Inl p \<Rightarrow> Some (Inl p)
           | Inr b1 \<Rightarrow>
               (case putUint16 b1 (i + 2) right of
                  Inl p \<Rightarrow> Some (Inl p)
                | Inr b2 \<Rightarrow> readFrames k (i + 4) chs' b2)))"

text \<open>
  \<open>readTick\<close> on the slice \<open>b\<close>: \<open>n = int(samplesPerTick) * 4\<close> bytes, that is
  \<open>n div 4\<close> frames when \<open>n\<close> is positive and none otherwise.
\<close>

definition readTick :: "Stream \<Rightarrow> 8 word list \<Rightarrow> (panic + 8 word list \<times> Stream) option" where
  "readTick s b =
     (let n = go_int (m_samplesPerTick (module s)) * 4
      in case readFrames (nat (n div 4)) 0 (channels s) b of
           None \<Rightarrow> None
         | Some (Inl p) \<Rightarrow> Some (Inl p)
         | Some (Inr (b', chs)) \<Rightarrow> Some (Inr (b', s\<lparr>channels := chs\<rparr>)))"

subsection \<open>Read\<close>

text \<open>
  The loop of \<open>Read\<close>. \<open>front\<close> is the part of the caller's buffer that lies before the
  slice \<open>b\<close>; the result is the byte count, the error (always \<open>nil\<close>, that is \<open>None\<close>),
  the caller's buffer and the stream. The loop does not return when \<open>bytesPerTick\<close> is 0
  and no tick panics.
\<close>

partial_function (option) ReadLoop :: "(real \<Rightarrow> real) \<Rightarrow> Stream \<Rightarrow> int \<Rightarrow> 8 word list \<Rightarrow> 8 word list \<Rightarrow> (panic + int \<times> ioerror option \<times> 8 word list \<times> Stream) option" where
  "ReadLoop lf s written front b =
     (let bytesPerTick = m_bytesPerTick (module s)
      in if int (length b) > bytesPerTick
         then (case nextTick lf s of
                 Inl p \<Rightarrow> Some (Inl p)
               | Inr s1 \<Rightarrow>
                   if bytesPerTick < 0 then Some (Inl SliceBoundsOutOfRange)
                   else (case readTick s1 (take (nat bytesPerTick) b) of
                           None \<Rightarrow> None
                         | Some (Inl p) \<Rightarrow> Some (Inl p)
                         | Some (Inr (chunk, s2)) \<Rightarrow>
                             ReadLoop lf s2 (written + bytesPerTick) (front @ chunk)
                               (drop (nat bytesPerTick) b)))
         else Some (Inr (written, None, front @ b, s)))"

definition Read :: "(real \<Rightarrow> real) \<Rightarrow> Stream \<Rightarrow> 8 word list \<Rightarrow> (panic + int \<times> ioerror option \<times> 8 word list \<times> Stream) option" where
  "Read lf s b = ReadLoop lf s 0 [] b"

subsection \<open>Observations\<close>

text \<open>What the caller sees of a call of \<open>Read\<close>: the panic, or the count, the error and
  the buffer.\<close>

definition rendered :: "(panic + int \<times> ioerror option \<times> 8 word list \<times> Stream) option \<Rightarrow> (panic + int \<times> ioerror option \<times> 8 word list) option" where
  "rendered r = (case r of
                   None \<Rightarrow> None
                 | Some (Inl p) \<Rightarrow> Some (Inl p)
                 | Some (Inr (n, e, b, s)) \<Rightarrow> Some (Inr (n, e, b)))"

text \<open>The stream that a call of \<open>Read\<close> leaves behind, if it returned.\<close>

definition streamAfter :: "(panic + int \<times> ioerror option \<times> 8 word list \<times> Stream) option \<Rightarrow> Stream option" where
  "streamAfter r = (case r of Some (Inr (n, e, b, s)) \<Rightarrow> Some s | _ \<Rightarrow> None)"

text \<open>
  The scenario of the restart property: render \<open>b1\<close> from the stream \<open>s\<close>, rewind, render
  \<open>b\<close>.
\<close>

definition renderedAfterRewind :: "(real \<Rightarrow> real) \<Rightarrow> Stream \<Rightarrow> 8 word list \<Rightarrow> 8 word list \<Rightarrow> (panic + int \<times> ioerror option \<times> 8 word list) option" where
  "renderedAfterRewind lf s b1 b =
     (case streamAfter (Read lf s b1) of
        None \<Rightarrow> None
      | Some s1 \<Rightarrow> rendered (Read lf (Rewind s1) b))"

text \<open>What a frame leaves of a voice: cursor and direction.\<close>

definition cursorOf :: "(panic + streamChannel) option \<Rightarrow> (panic + real \<times> bool) option" where
  "cursorOf r = (case r of
                   None \<Rightarrow> None
                 | Some (Inl p) \<Rightarrow> Some (Inl p)
                 | Some (Inr ch) \<Rightarrow> Some (Inr (sampleOffset ch, reverse ch)))"

text \<open>
  The stereo gain pair in the words of the spec: global volume, voice volume and fadeout
  volume, with the pan law \<open>sqrt (1 - pan)\<close>, \<open>sqrt pan\<close> at the centre \<open>pan = 1/2\<close>.
\<close>

definition centerGain :: "Stream \<Rightarrow> streamChannel \<Rightarrow> real \<times> real" where
  "centerGain s ch =
     (volumeScaling s * volume ch * fadeoutVolume ch * sqrt (1 - 1/2),
      volumeScaling s * volume ch * fadeoutVolume ch * sqrt (1/2))"

subsection \<open>Streams on which every forward loop ends\<close>

text \<open>
  The loop of a forward-looping instrument ends when its \<open>loopLength\<close> is positive. A
  stream is well-formed when this holds for every instrument that the pattern order, the
  current pattern and the voices refer to.
\<close>

definition instOK :: "instrument \<Rightarrow> bool" where
  "instOK i = (if i_loopType i = SampleLoopForward then 0 < i_loopLength i else True)"

definition voiceOK :: "streamChannel \<Rightarrow> bool" where
  "voiceOK ch = (case inst ch of None \<Rightarrow> True | Some i \<Rightarrow> instOK i)"

definition noteOK :: "patternNote \<Rightarrow> bool" where
  "noteOK n = (case n_inst n of None \<Rightarrow> True | Some i \<Rightarrow> instOK i)"

definition patternOK :: "pattern \<Rightarrow> bool" where
  "patternOK p = list_all noteOK (p_notes p)"

definition streamOK :: "Stream \<Rightarrow> bool" where
  "streamOK s =
     (list_all patternOK (m_patternOrder (module s))
      \<and> (case pattern s of None \<Rightarrow> True | Some p \<Rightarrow> patternOK p)
      \<and> list_all voiceOK (channels s))"

subsection \<open>Concrete modules, instruments and voices\<close>

text \<open>Two samples, no loop, no volume envelope.\<close>

definition exInst :: instrument where
  "exInst = \<lparr>i_samples = [100, 100], i_loopType = SampleLoopNone, i_loopStart = 0,
     i_loopEnd = 0, i_loopLength = 0, i_volume = 1, i_panning = 1/2, i_volumeFlags = 0,
     i_volumeFadeoutStep = 0, i_volumeEnvelope = envelope0, i_panningEnvelope = envelope0\<rparr>"

text \<open>A forward loop and a ping-pong loop over the samples 10 to 13 of 16.\<close>

definition exForward :: instrument where
  "exForward = exInst\<lparr>i_samples := replicate 16 100, i_loopType := SampleLoopForward,
     i_loopStart := 10, i_loopEnd := 14, i_loopLength := 4\<rparr>"

definition exPingPong :: instrument where
  "exPingPong = exForward\<lparr>i_loopType := SampleLoopPingPong\<rparr>"

text \<open>A ping-pong loop over the whole of 4 samples.\<close>

definition exPingPongAll :: instrument where
  "exPingPongAll = exInst\<lparr>i_samples := [100, 100, 100, 100], i_loopType := SampleLoopPingPong,
     i_loopStart := 0, i_loopEnd := 4, i_loopLength := 4\<rparr>"

text \<open>An instrument whose volume envelope is on.\<close>

definition exEnvInst :: instrument where
  "exEnvInst = exInst\<lparr>i_volumeFlags := 1\<rparr>"

definition exEmptyNote :: patternNote where
  "exEmptyNote = \<lparr>n_inst = None, n_period = 0, n_effect = effectKey0, n_flags = {},
     n_Kind = noteEmpty\<rparr>"

definition exNote :: patternNote where
  "exNote = \<lparr>n_inst = Some exInst, n_period = 4608, n_effect = effectKey0,
     n_flags = {noteValid}, n_Kind = noteNormal\<rparr>"

definition exGhostNote :: patternNote where
  "exGhostNote = \<lparr>n_inst = None, n_period = 4608, n_effect = effectKey0,
     n_flags = {noteValid}, n_Kind = noteGhost\<rparr>"

text \<open>An empty note that carries the first entry of the effect table.\<close>

definition exBreakNote :: patternNote where
  "exBreakNote = exEmptyNote\<lparr>n_effect := \<lparr>ek_Index = 0, ek_Len = 1\<rparr>\<rparr>"

definition exBreak :: effect where
  "exBreak = \<lparr>e_op = EffectPatternBreak, e_rawValue = 0, e_floatValue = 0, e_arp = [0, 0, 0]\<rparr>"

definition exKeyOff :: "8 word \<Rightarrow> effect" where
  "exKeyOff v = \<lparr>e_op = EffectKeyOff, e_rawValue = v, e_floatValue = 0, e_arp = [0, 0, 0]\<rparr>"

text \<open>A pattern of one channel with the given rows.\<close>

definition exPattern :: "patternNote list \<Rightarrow> pattern" where
  "exPattern ns = \<lparr>p_numRows = int (length ns), p_numChannels = 1, p_notes = ns\<rparr>"

text \<open>One tick per row, one frame (4 bytes) per tick.\<close>

definition exModule :: "pattern list \<Rightarrow> module" where
  "exModule po = \<lparr>m_sampleRate = 44100, m_ticksPerRow = 1, m_samplesPerTick = 1,
     m_bytesPerTick = 4, m_patternOrder = po, m_effectTab = [exBreak]\<rparr>"

text \<open>A fresh stream of one channel over such a module.\<close>

definition exStream :: "pattern list \<Rightarrow> Stream" where
  "exStream po = LoadCompiled NewStream (exModule po) 1"

text \<open>A voice that plays \<open>exInst\<close> from its first sample, one sample per frame.\<close>

definition exVoice :: streamChannel where
  "exVoice = streamChannel0\<lparr>inst := Some exInst, sampleStep := 1, volume := 1,
     fadeoutVolume := 1, computedVolume := (1, 1), sustain := True\<rparr>"

text \<open>A stream of three frames (12 bytes) per tick whose only voice is \<open>exVoice\<close>.\<close>

definition exTickStream :: Stream where
  "exTickStream = (exStream [exPattern [exEmptyNote]])
     \<lparr>module := (exModule [exPattern [exEmptyNote]])
                   \<lparr>m_samplesPerTick := 3, m_bytesPerTick := 12\<rparr>,
      channels := [exVoice]\<rparr>"

text \<open>
  A stream of six ticks per row whose only row plays \<open>exInst\<close> with a key-off of operand
  \<open>v\<close>.
\<close>

definition exKeyOffStream :: "8 word \<Rightarrow> Stream" where
  "exKeyOffStream v =
     LoadCompiled NewStream
       ((exModule [exPattern [exNote\<lparr>n_effect := \<lparr>ek_Index = 0, ek_Len = 1\<rparr>\<rparr>]])
          \<lparr>m_ticksPerRow := 6, m_effectTab := [exKeyOff v]\<rparr>) 1"

text \<open>The volumes and sustain flags of the voices after each of \<open>k\<close> ticks.\<close>

fun volumesOverTicks :: "(real \<Rightarrow> real) \<Rightarrow> nat \<Rightarrow> Stream \<Rightarrow> panic + (real \<times> bool) list list" where
  "volumesOverTicks lf 0 s = Inr []"
| "volumesOverTicks lf (Suc k) s =
     (case nextTick lf s of
        Inl p \<Rightarrow> Inl p
      | Inr s' \<Rightarrow>
          (case volumesOverTicks lf k s' of
             Inl p \<Rightarrow> Inl p
           | Inr vs \<Rightarrow> Inr (map (\<lambda>ch. (volume ch, sustain ch)) (channels s') # vs)))"

section \<open>Lemmas\<close>

lemmas ex_defs = exKeyOffStream_def exInst_def exForward_def exPingPong_def exPingPongAll_def exEnvInst_def
  exEmptyNote_def exNote_def exGhostNote_def exBreakNote_def exBreak_def exKeyOff_def
  exPattern_def exModule_def exStream_def exVoice_def exTickStream_def

lemmas model_defs = LoadCompiled_def NewStream_def Rewind_def Read_def nextTick_def
  nextRow_def nextPattern_def selectPattern_def rowChannel_def tickChannel_def
  envelopeTick_def readTick_def mixChannel_def putUint16_def go_int_def go_int16_def
  go_uint8_def go_rem_def streamChannel0_def effectKey0_def IsEmpty_def envelopeRunner0_def
  envelope0_def module0_def applyRowEffect_def applyTickEffect_def effectSlice_def
  rowEffect_def tickEffect_def advanceSample_def keyOff_def IsOn_def Contains_def
  assignNote_def resetEnvelopes_def Let_def

lemmas obs_defs = rendered_def streamAfter_def renderedAfterRewind_def cursorOf_def

subsection \<open>Arithmetic\<close>

lemma floor_20_sqrt_half: "\<lfloor>20 * sqrt (1 / 2)\<rfloor> = (14::int)"
proof -
  have "(7/10)\<^sup>2 \<le> (1/2::real)" by (simp add: power2_eq_square)
  then have lo: "7/10 \<le> sqrt (1/2)" by (rule real_le_rsqrt)
  have "(1/2::real) < (3/4)\<^sup>2" by (simp add: power2_eq_square)
  then have hi: "sqrt (1/2) < 3/4" by (intro real_less_lsqrt) simp_all
  from lo hi show ?thesis by (simp add: floor_eq_iff)
qed

lemma go_uint8_eq_iff: "(w = go_uint8 t) = (uint w = t mod 256)"
  by (auto simp add: go_uint8_def word_uint_eq_iff uint_word_of_int take_bit_eq_mod)

subsection \<open>The forward loop ends when the loop length is positive\<close>

lemma forwardWrap_below: "off < e \<Longrightarrow> forwardWrap off e l = Some off"
  by (subst forwardWrap.simps) simp

lemma forwardWrap_step: "e \<le> off \<Longrightarrow> forwardWrap off e l = forwardWrap (off - l) e l"
  by (subst forwardWrap.simps) simp

lemma forwardWrap_bounded:
  "0 < l \<Longrightarrow> off < e + real k * l \<Longrightarrow>
   \<exists>y. forwardWrap off e l = Some y \<and> y < e \<and> (e \<le> off \<longrightarrow> e - l \<le> y) \<and> (off < e \<longrightarrow> y = off)"
proof (induction k arbitrary: off)
  case 0
  then show ?case by (simp add: forwardWrap_below)
next
  case (Suc k)
  show ?case
  proof (cases "off < e")
    case True
    then show ?thesis by (simp add: forwardWrap_below)
  next
    case False
    then have ge: "e \<le> off" by simp
    from Suc.prems have "off - l < e + real k * l" by (simp add: algebra_simps)
    from Suc.IH [OF Suc.prems(1) this] obtain y where
      y: "forwardWrap (off - l) e l = Some y" "y < e" "e \<le> off - l \<longrightarrow> e - l \<le> y"
         "off - l < e \<longrightarrow> y = off - l"
      by blast
    have "e - l \<le> y"
    proof (cases "e \<le> off - l")
      case True
      with y(3) show ?thesis by simp
    next
      case False
      with y(4) ge show ?thesis by simp
    qed
    with y ge show ?thesis by (simp add: forwardWrap_step)
  qed
qed

lemma forwardWrap_returns:
  assumes "0 < l"
  shows "\<exists>y. forwardWrap off e l = Some y \<and> y < e \<and> (e \<le> off \<longrightarrow> e - l \<le> y) \<and> (off < e \<longrightarrow> y = off)"
proof -
  obtain k :: nat where "(off - e) / l < real k"
    using reals_Archimedean2 by blast
  with assms have "off < e + real k * l"
    by (simp add: pos_divide_less_eq algebra_simps)
  with assms show ?thesis by (rule forwardWrap_bounded)
qed

subsection \<open>What a row and a tick leave unchanged\<close>

lemma rowEffect_keeps:
  "module (fst (rowEffect e sc)) = module (fst sc)
   \<and> volumeScaling (fst (rowEffect e sc)) = volumeScaling (fst sc)"
  by (simp add: rowEffect_def Let_def split: effectOp.splits)

lemma fold_rowEffect_keeps:
  "module (fst (fold rowEffect es sc)) = module (fst sc)
   \<and> volumeScaling (fst (fold rowEffect es sc)) = volumeScaling (fst sc)"
  by (induction es arbitrary: sc) (simp_all add: rowEffect_keeps)

lemma rowChannel_keeps:
  assumes "rowChannel s n ch = Inr (s', ch')"
  shows "module s' = module s \<and> volumeScaling s' = volumeScaling s"
proof -
  have "?thesis" if "applyRowEffect s c = Inr (s', ch')" for c
  proof -
    from that obtain es where "fold rowEffect es (s, c) = (s', ch')"
      by (auto simp add: applyRowEffect_def split: sum.splits)
    with fold_rowEffect_keeps [of es "(s, c)"] show ?thesis by simp
  qed
  with assms show ?thesis
    by (auto simp add: rowChannel_def Let_def split: if_splits)
qed

lemma rowChannels_keeps:
  "rowChannels s ns chs = Inr (s', chs') \<Longrightarrow>
   module s' = module s \<and> volumeScaling s' = volumeScaling s \<and> length chs' = length chs"
proof (induction s ns chs arbitrary: s' chs' rule: rowChannels.induct)
  case (1 s ns)
  then show ?case by simp
next
  case (2 s ch chs)
  then show ?case by simp
next
  case (3 s n ns ch chs)
  from "3.prems" obtain s1 ch1 s2 chs2 where
    a: "rowChannel s n ch = Inr (s1, ch1)" and
    b: "rowChannels s1 ns chs = Inr (s2, chs2)" and
    c: "s' = s2" "chs' = ch1 # chs2"
    by (auto split: sum.splits prod.splits)
  from "3.IH" [OF a refl b] rowChannel_keeps [OF a] c show ?case by simp
qed

lemma selectPattern_keeps:
  "selectPattern s i = Inr s' \<Longrightarrow>
   module s' = module s \<and> volumeScaling s' = volumeScaling s \<and> channels s' = channels s"
  by (auto simp add: selectPattern_def Let_def split: if_splits)

lemma nextRow_keeps:
  assumes "nextRow s = Inr s'"
  shows "module s' = module s \<and> volumeScaling s' = volumeScaling s
         \<and> length (channels s') = length (channels s)"
  using assms
  by (auto simp add: nextRow_def nextPattern_def Let_def
      split: if_splits sum.splits option.splits prod.splits
      dest!: selectPattern_keeps rowChannels_keeps)

lemma nextTick_keeps: "nextTick lf s = Inr s' \<Longrightarrow> module s' = module s"
  by (auto simp add: nextTick_def Let_def split: sum.splits if_splits dest: nextRow_keeps)

lemma readTick_keeps: "readTick s b = Some (Inr (b', s')) \<Longrightarrow> module s' = module s"
  by (auto simp add: readTick_def Let_def split: option.splits sum.splits)

subsection \<open>The gain pair of a tick\<close>

lemma tickEffect_gain:
  "tickEffect s e ch = Inr ch' \<Longrightarrow> computedVolume ch' = computedVolume ch"
  by (auto simp add: tickEffect_def keyOff_def Let_def split: effectOp.splits if_splits)

lemma tickEffects_gain:
  "tickEffects s es ch = Inr ch' \<Longrightarrow> computedVolume ch' = computedVolume ch"
proof (induction es arbitrary: ch)
  case Nil
  then show ?case by simp
next
  case (Cons e es)
  from Cons.prems obtain c where c: "tickEffect s e ch = Inr c" "tickEffects s es c = Inr ch'"
    by (auto split: sum.splits)
  from Cons.IH [OF c(2)] tickEffect_gain [OF c(1)] show ?case by simp
qed

lemma tickChannel_gain:
  assumes "tickChannel lf s ch = Inr ch'"
  shows "computedVolume ch' = centerGain s (envelopeTick ch)"
proof -
  let ?c = "(envelopeTick ch)\<lparr>computedVolume := centerGain s (envelopeTick ch),
              arpeggioTicked := False\<rparr>"
  from assms obtain c4 where
    c4: "(if \<not> IsEmpty (effect ?c) then applyTickEffect s ?c else Inr ?c) = Inr c4"
    and r: "computedVolume ch' = computedVolume c4"
    by (auto simp add: tickChannel_def centerGain_def Let_def split: sum.splits if_splits)
  from c4 have "computedVolume c4 = computedVolume ?c"
    by (auto simp add: applyTickEffect_def split: if_splits sum.splits dest: tickEffects_gain)
  with r show ?thesis by simp
qed

lemma tickChannels_gain:
  "tickChannels lf s chs = Inr chs' \<Longrightarrow>
   list_all2 (\<lambda>ch ch'. computedVolume ch' = centerGain s (envelopeTick ch)) chs chs'"
proof (induction chs arbitrary: chs')
  case Nil
  then show ?case by simp
next
  case (Cons ch chs)
  from Cons.prems obtain c cs where
    c: "tickChannel lf s ch = Inr c" "tickChannels lf s chs = Inr cs" "chs' = c # cs"
    by (auto split: sum.splits)
  from Cons.IH [OF c(2)] tickChannel_gain [OF c(1)] c(3) show ?case by simp
qed

lemma centerGain_equal: "fst (centerGain s ch) = snd (centerGain s ch)"
  by (simp add: centerGain_def)

lemma centerGain_ignores_panning:
  "centerGain s (envelopeTick (ch\<lparr>panning := p\<rparr>)) = centerGain s (envelopeTick ch)"
  by (simp add: centerGain_def envelopeTick_def split: option.splits)

subsection \<open>The byte count and the buffer of Read\<close>

lemma ReadLoop_count:
  assumes "ReadLoop lf s written front b = Some y"
  shows "case y of
           Inl p \<Rightarrow> True
         | Inr (n, e, b', s') \<Rightarrow>
             e = None \<and> module s' = module s
             \<and> m_bytesPerTick (module s) dvd n - written
             \<and> 0 \<le> n - written \<and> n - written \<le> int (length b)
             \<and> (0 < m_bytesPerTick (module s) \<longrightarrow>
                   int (length b) - (n - written) \<le> m_bytesPerTick (module s)
                   \<and> (b \<noteq> [] \<longrightarrow> n - written < int (length b)))"
proof (rule ReadLoop.raw_induct [where P = "\<lambda>lf s written front b y.
         case y of
           Inl p \<Rightarrow> True
         | Inr (n, e, b', s') \<Rightarrow>
             e = None \<and> module s' = module s
             \<and> m_bytesPerTick (module s) dvd n - written
             \<and> 0 \<le> n - written \<and> n - written \<le> int (length b)
             \<and> (0 < m_bytesPerTick (module s) \<longrightarrow>
                   int (length b) - (n - written) \<le> m_bytesPerTick (module s)
                   \<and> (b \<noteq> [] \<longrightarrow> n - written < int (length b)))", OF _ assms], goal_cases)
  case (1 R lf s written front b y)
  let ?t = "m_bytesPerTick (module s)"
  show ?case
  proof (cases y)
    case (Inl p)
    then show ?thesis by simp
  next
    case (Inr r)
    obtain n e b' s' where r: "r = (n, e, b', s')" by (cases r) auto
    show ?thesis
    proof (cases "?t < int (length b)")
      case False
      with 1(2) Inr r have "n = written" "e = None" "s' = s" by (simp_all add: Let_def)
      with False Inr r show ?thesis by auto
    next
      case True
      with 1(2) obtain s1 where s1: "nextTick lf s = Inr s1" and nonneg: "0 \<le> ?t"
        and rt: "(case readTick s1 (take (nat ?t) b) of
                    None \<Rightarrow> None
                  | Some (Inl p) \<Rightarrow> Some (Inl p)
                  | Some (Inr (chunk, s2)) \<Rightarrow>
                      R lf s2 (written + ?t) (front @ chunk) (drop (nat ?t) b)) = Some y"
        using Inr by (cases "nextTick lf s"; cases "?t < 0") (simp_all add: Let_def)
      from rt Inr obtain chunk s2 where
        s2: "readTick s1 (take (nat ?t) b) = Some (Inr (chunk, s2))" and
        rec: "R lf s2 (written + ?t) (front @ chunk) (drop (nat ?t) b) = Some y"
        by (auto split: option.splits sum.splits)
      from nextTick_keeps [OF s1] readTick_keeps [OF s2] have m: "module s2 = module s"
        by simp
      from 1(1) [OF rec] Inr r m have
        k: "e = None" "module s' = module s" "?t dvd n - (written + ?t)"
           "0 \<le> n - (written + ?t)"
           "n - (written + ?t) \<le> int (length (drop (nat ?t) b))"
           "0 < ?t \<longrightarrow> int (length (drop (nat ?t) b)) - (n - (written + ?t)) \<le> ?t
              \<and> (drop (nat ?t) b \<noteq> [] \<longrightarrow> n - (written + ?t) < int (length (drop (nat ?t) b)))"
        by simp_all
      from True nonneg have len: "int (length (drop (nat ?t) b)) = int (length b) - ?t"
        and ne: "drop (nat ?t) b \<noteq> []" "b \<noteq> []"
        by auto
      have "n - written = (n - (written + ?t)) + ?t" by simp
      with k(3) have d: "?t dvd n - written" by (metis dvd_add dvd_refl)
      have "0 \<le> n - written" "n - written \<le> int (length b)"
        using k(4,5) len nonneg by linarith+
      moreover have "int (length b) - (n - written) \<le> ?t \<and> n - written < int (length b)"
        if "0 < ?t"
        using k(6) that len ne by auto
      ultimately show ?thesis using k(1,2) d Inr r by simp
    qed
  qed
qed

lemma readFrames_length:
  "readFrames k i chs b = Some (Inr (b', chs')) \<Longrightarrow> length b' = length b"
proof (induction k arbitrary: i chs b)
  case 0
  then show ?case by simp
next
  case (Suc k)
  from Suc.prems obtain l1 r1 chs1 b1 b2 where
    p: "putUint16 b i l1 = Inr b1" "putUint16 b1 (i + 2) r1 = Inr b2" and
    rec: "readFrames k (i + 4) chs1 b2 = Some (Inr (b', chs'))"
    by (auto split: option.splits sum.splits prod.splits)
  from p have "length b2 = length b"
    by (auto simp add: putUint16_def split: if_splits)
  with Suc.IH [OF rec] show ?case by simp
qed

lemma readTick_length: "readTick s b = Some (Inr (b', s')) \<Longrightarrow> length b' = length b"
  by (auto simp add: readTick_def Let_def split: option.splits sum.splits dest: readFrames_length)

lemma ReadLoop_buffer:
  assumes "ReadLoop lf s written front b = Some y"
  shows "case y of
           Inl p \<Rightarrow> True
         | Inr (n, e, b', s') \<Rightarrow>
             0 \<le> n - written
             \<and> length b' = length front + length b
             \<and> take (length front) b' = front
             \<and> drop (length front + nat (n - written)) b' = drop (nat (n - written)) b"
proof (rule ReadLoop.raw_induct [where P = "\<lambda>lf s written front b y.
         case y of
           Inl p \<Rightarrow> True
         | Inr (n, e, b', s') \<Rightarrow>
             0 \<le> n - written
             \<and> length b' = length front + length b
             \<and> take (length front) b' = front
             \<and> drop (length front + nat (n - written)) b' = drop (nat (n - written)) b",
       OF _ assms], goal_cases)
  case (1 R lf s written front b y)
  let ?t = "m_bytesPerTick (module s)"
  show ?case
  proof (cases y)
    case (Inl p)
    then show ?thesis by simp
  next
    case (Inr r)
    obtain n e b' s' where r: "r = (n, e, b', s')" by (cases r) auto
    show ?thesis
    proof (cases "?t < int (length b)")
      case False
      with 1(2) Inr r have "n = written" "b' = front @ b" by (simp_all add: Let_def)
      with Inr r show ?thesis by simp
    next
      case True
      with 1(2) obtain s1 where s1: "nextTick lf s = Inr s1" and nonneg: "0 \<le> ?t"
        and rt: "(case readTick s1 (take (nat ?t) b) of
                    None \<Rightarrow> None
                  | Some (Inl p) \<Rightarrow> Some (Inl p)
                  | Some (Inr (chunk, s2)) \<Rightarrow>
                      R lf s2 (written + ?t) (front @ chunk) (drop (nat ?t) b)) = Some y"
        using Inr by (cases "nextTick lf s"; cases "?t < 0") (simp_all add: Let_def)
      from rt Inr obtain chunk s2 where
        s2: "readTick s1 (take (nat ?t) b) = Some (Inr (chunk, s2))" and
        rec: "R lf s2 (written + ?t) (front @ chunk) (drop (nat ?t) b) = Some y"
        by (auto split: option.splits sum.splits)
      from readTick_length [OF s2] True nonneg have lc: "length chunk = nat ?t" by auto
      define d where "d = nat (n - (written + ?t))"
      from 1(1) [OF rec] Inr r have
        k: "0 \<le> n - (written + ?t)"
           "length b' = length (front @ chunk) + length (drop (nat ?t) b)"
           "take (length (front @ chunk)) b' = front @ chunk"
           "drop (length (front @ chunk) + d) b' = drop d (drop (nat ?t) b)"
        by (simp_all add: d_def)
      from k(1) nonneg have n: "0 \<le> n - written" and dn: "nat (n - written) = nat ?t + d"
        by (simp_all add: d_def)
      from k(2) lc True nonneg have len: "length b' = length front + length b" by auto
      have "take (length front) b' = take (length front) (take (length (front @ chunk)) b')"
        by (simp add: min_def)
      with k(3) have tk: "take (length front) b' = front" by simp
      from k(4) lc have "drop (length front + (nat ?t + d)) b' = drop (nat ?t + d) b"
        by (simp add: add.assoc add.commute [of d])
      with n len tk dn Inr r show ?thesis by simp
    qed
  qed
qed

text \<open>
  \<open>Read\<close> has one return statement, and its error is \<open>nil\<close>: no call returns
  \<open>io.EOF\<close>.
\<close>

lemma Read_error_is_nil:
  assumes "Read lf s b = Some (Inr (n, e, b', s'))"
  shows "e = None"
  using ReadLoop_count [OF assms [unfolded Read_def]] by simp

text \<open>
  The count that the code returns for a non-empty buffer: the whole ticks that fit into one
  byte less than the buffer.
\<close>

lemma Read_count_formula:
  assumes "Read lf s b = Some (Inr (n, e, b', s'))" and "0 < m_bytesPerTick (module s)"
    and "b \<noteq> []"
  shows "n = m_bytesPerTick (module s) * ((int (length b) - 1) div m_bytesPerTick (module s))"
proof -
  let ?t = "m_bytesPerTick (module s)"
  from ReadLoop_count [OF assms(1) [unfolded Read_def]] assms(2,3) have
    d: "?t dvd n" and lo: "int (length b) - n \<le> ?t" and hi: "n < int (length b)"
    by simp_all
  from d obtain k where k: "n = ?t * k" by (auto simp add: dvd_def)
  have "(int (length b) - 1) div ?t = k"
  proof (rule int_div_pos_eq [where r = "int (length b) - 1 - ?t * k"])
    show "int (length b) - 1 = ?t * k + (int (length b) - 1 - ?t * k)" by simp
    show "0 \<le> int (length b) - 1 - ?t * k" using hi k by simp
    show "int (length b) - 1 - ?t * k < ?t" using lo k by simp
  qed
  with k show ?thesis by simp
qed

subsection \<open>Read returns on a well-formed stream\<close>

text \<open>
  With a positive \<open>bytesPerTick\<close> and positive lengths of the forward loops, every call of
  \<open>Read\<close> returns: with a count, or with a panic.
\<close>

lemma advanceSample_returns:
  assumes "instOK i"
  shows "\<exists>r. advanceSample i ch = Some r \<and> (\<forall>ch'. r = Inr ch' \<longrightarrow> inst ch' = inst ch)"
proof (cases "i_loopType i")
  case SampleLoopForward
  with assms have "0 < i_loopLength i" by (simp add: instOK_def)
  from forwardWrap_returns [OF this, of "sampleOffset ch + sampleStep ch" "i_loopEnd i"]
  obtain y where "forwardWrap (sampleOffset ch + sampleStep ch) (i_loopEnd i) (i_loopLength i) = Some y"
    by blast
  with SampleLoopForward show ?thesis by (simp add: advanceSample_def)
qed (simp_all add: advanceSample_def Let_def)

lemma mixChannel_returns:
  assumes "voiceOK ch"
  shows "\<exists>r. mixChannel ch left right = Some r
           \<and> (\<forall>l' r' ch'. r = Inr (l', r', ch') \<longrightarrow> voiceOK ch')"
proof (cases "inst ch")
  case None
  with assms show ?thesis by (simp add: mixChannel_def)
next
  case (Some i)
  with assms have ok: "instOK i" by (simp add: voiceOK_def)
  from advanceSample_returns [OF ok, of ch] obtain r where
    r: "advanceSample i ch = Some r" "\<forall>ch'. r = Inr ch' \<longrightarrow> inst ch' = inst ch"
    by blast
  show ?thesis
  proof (cases "sampleOffset ch > real (length (i_samples i))")
    case True
    with Some assms show ?thesis by (simp add: mixChannel_def)
  next
    case False
    note inside = this
    show ?thesis
    proof (cases "go_int (sampleOffset ch) < 0
        \<or> int (length (i_samples i)) \<le> go_int (sampleOffset ch)")
      case True
      with Some inside show ?thesis by (simp add: mixChannel_def Let_def)
    next
      case False
      show ?thesis
      proof (cases r)
        case (Inl p)
        with Some inside False r(1) show ?thesis by (simp add: mixChannel_def Let_def)
      next
        case (Inr c)
        with r(2) Some ok have "voiceOK c" by (simp add: voiceOK_def)
        with Inr Some inside False r(1) show ?thesis by (simp add: mixChannel_def Let_def)
      qed
    qed
  qed
qed

lemma mixChannels_returns:
  "list_all voiceOK chs \<Longrightarrow>
   \<exists>r. mixChannels chs left right = Some r
     \<and> (\<forall>l' r' chs'. r = Inr (l', r', chs') \<longrightarrow> list_all voiceOK chs')"
proof (induction chs arbitrary: left right)
  case Nil
  then show ?case by simp
next
  case (Cons ch chs)
  then have ok: "voiceOK ch" "list_all voiceOK chs" by simp_all
  from mixChannel_returns [OF ok(1), of left right] obtain r where
    r: "mixChannel ch left right = Some r" "\<forall>l' r' ch'. r = Inr (l', r', ch') \<longrightarrow> voiceOK ch'"
    by blast
  show ?case
  proof (cases r)
    case (Inl p)
    with r show ?thesis by simp
  next
    case (Inr t)
    obtain l1 r1 ch1 where t: "t = (l1, r1, ch1)" by (cases t) auto
    from Cons.IH [OF ok(2), of l1 r1] obtain q where
      q: "mixChannels chs l1 r1 = Some q"
         "\<forall>l' r' chs'. q = Inr (l', r', chs') \<longrightarrow> list_all voiceOK chs'"
      by blast
    from r Inr t q show ?thesis by (cases q) auto
  qed
qed

lemma readFrames_returns:
  "list_all voiceOK chs \<Longrightarrow>
   \<exists>r. readFrames k i chs b = Some r \<and> (\<forall>b' chs'. r = Inr (b', chs') \<longrightarrow> list_all voiceOK chs')"
proof (induction k arbitrary: i chs b)
  case 0
  then show ?case by simp
next
  case (Suc k)
  from mixChannels_returns [OF Suc.prems, of 0 0] obtain r where
    r: "mixChannels chs 0 0 = Some r"
       "\<forall>l' r' chs'. r = Inr (l', r', chs') \<longrightarrow> list_all voiceOK chs'"
    by blast
  show ?case
  proof (cases r)
    case (Inl p)
    with r show ?thesis by simp
  next
    case (Inr t)
    obtain l1 r1 chs1 where t: "t = (l1, r1, chs1)" by (cases t) auto
    with r Inr have ok: "list_all voiceOK chs1" by simp
    show ?thesis
    proof (cases "putUint16 b i l1")
      case (Inl p)
      with r Inr t show ?thesis by simp
    next
      case b1: (Inr b1)
      show ?thesis
      proof (cases "putUint16 b1 (i + 2) r1")
        case (Inl p)
        with r Inr t b1 show ?thesis by simp
      next
        case b2: (Inr b2)
        from Suc.IH [OF ok, of "i + 4" b2] r Inr t b1 b2 show ?thesis by simp
      qed
    qed
  qed
qed

lemma readTick_returns:
  assumes "streamOK s"
  shows "\<exists>r. readTick s b = Some r \<and> (\<forall>b' s'. r = Inr (b', s') \<longrightarrow> streamOK s')"
proof -
  from assms have "list_all voiceOK (channels s)" by (simp add: streamOK_def)
  from readFrames_returns [OF this,
      of "nat (go_int (m_samplesPerTick (module s)) * 4 div 4)" 0 b]
  obtain r where
    r: "readFrames (nat (go_int (m_samplesPerTick (module s)) * 4 div 4)) 0 (channels s) b = Some r"
       "\<forall>b' chs'. r = Inr (b', chs') \<longrightarrow> list_all voiceOK chs'"
    by blast
  with assms show ?thesis
    by (cases r) (auto simp add: readTick_def Let_def streamOK_def)
qed

lemma rowEffect_ok:
  "module (fst (rowEffect e sc)) = module (fst sc)
   \<and> pattern (fst (rowEffect e sc)) = pattern (fst sc)
   \<and> inst (snd (rowEffect e sc)) = inst (snd sc)"
  by (simp add: rowEffect_def keyOff_def Let_def split: effectOp.splits)

lemma fold_rowEffect_ok:
  "module (fst (fold rowEffect es sc)) = module (fst sc)
   \<and> pattern (fst (fold rowEffect es sc)) = pattern (fst sc)
   \<and> inst (snd (fold rowEffect es sc)) = inst (snd sc)"
  by (induction es arbitrary: sc) (simp_all add: rowEffect_ok)

lemma applyRowEffect_ok:
  assumes "applyRowEffect s c = Inr (s', ch')"
  shows "module s' = module s \<and> pattern s' = pattern s \<and> inst ch' = inst c"
proof -
  from assms obtain es where "fold rowEffect es (s, c) = (s', ch')"
    by (auto simp add: applyRowEffect_def split: sum.splits)
  with fold_rowEffect_ok [of es "(s, c)"] show ?thesis by simp
qed

lemma rowChannel_ok:
  assumes "rowChannel s n ch = Inr (s', ch')" and "noteOK n" and "voiceOK ch"
  shows "module s' = module s \<and> pattern s' = pattern s \<and> voiceOK ch'"
proof (cases "n_inst n")
  case None
  with assms show ?thesis
    by (auto simp add: rowChannel_def Let_def voiceOK_def
        split: if_splits option.splits dest!: applyRowEffect_ok)
next
  case (Some i)
  with assms show ?thesis
    by (auto simp add: rowChannel_def Let_def voiceOK_def noteOK_def
        split: if_splits dest!: applyRowEffect_ok)
qed

lemma rowChannels_ok:
  "rowChannels s ns chs = Inr (s', chs') \<Longrightarrow> list_all noteOK ns \<Longrightarrow> list_all voiceOK chs \<Longrightarrow>
   module s' = module s \<and> pattern s' = pattern s \<and> list_all voiceOK chs'"
proof (induction s ns chs arbitrary: s' chs' rule: rowChannels.induct)
  case (1 s ns)
  then show ?case by simp
next
  case (2 s ch chs)
  then show ?case by simp
next
  case (3 s n ns ch chs)
  from "3.prems"(1) obtain s1 ch1 s2 chs2 where
    a: "rowChannel s n ch = Inr (s1, ch1)" and
    b: "rowChannels s1 ns chs = Inr (s2, chs2)" and
    c: "s' = s2" "chs' = ch1 # chs2"
    by (auto split: sum.splits prod.splits)
  from "3.prems"(2,3) have ok: "noteOK n" "list_all noteOK ns" "voiceOK ch" "list_all voiceOK chs"
    by simp_all
  from "3.IH" [OF a refl b ok(2,4)] rowChannel_ok [OF a ok(1,3)] c show ?case by simp
qed

lemma selectPattern_ok:
  assumes "selectPattern s i = Inr s'" and "streamOK s"
  shows "streamOK s'"
proof -
  from assms(1) have i: "0 \<le> i" "nat i < length (m_patternOrder (module s))"
    and s': "s' = s\<lparr>patternIndex := i, pattern := Some (m_patternOrder (module s) ! nat i),
                     patternRowIndex := -1,
                     patternRowsRemain := p_numRows (m_patternOrder (module s) ! nat i)\<rparr>"
    by (auto simp add: selectPattern_def Let_def split: if_splits)
  from assms(2) i(2) have "patternOK (m_patternOrder (module s) ! nat i)"
    by (simp add: streamOK_def list_all_length)
  with assms(2) s' show ?thesis by (simp add: streamOK_def)
qed

lemma streamOK_position:
  "streamOK (s\<lparr>patternRowIndex := a, patternRowsRemain := b\<rparr>) = streamOK s"
  "streamOK (s\<lparr>jumpKind := j\<rparr>) = streamOK s"
  "streamOK (s\<lparr>rowTicksRemain := c, tickIndex := d\<rparr>) = streamOK s"
  by (simp_all add: streamOK_def)

lemma nextRow_ok:
  assumes "nextRow s = Inr s'" and "streamOK s"
  shows "streamOK s'"
proof -
  let ?seq = "(if jumpKind s = jumpNone
            then (case (if patternRowsRemain s = 0 then nextPattern s else Inr s) of
                    Inl p \<Rightarrow> Inl p
                  | Inr s \<Rightarrow> Inr (s\<lparr>patternRowIndex := patternRowIndex s + 1,
                                    patternRowsRemain := patternRowsRemain s - 1\<rparr>))
            else (case selectPattern (s\<lparr>jumpKind := jumpNone\<rparr>) (jumpPattern s) of
                    Inl p \<Rightarrow> Inl p
                  | Inr s \<Rightarrow>
                      (case pattern s of
                         None \<Rightarrow> Inl NilDereference
                       | Some pat \<Rightarrow>
                           Inr (s\<lparr>patternRowIndex := jumpRow s,
                                  patternRowsRemain := p_numRows pat - jumpRow s - 1\<rparr>))))"
  from assms(1) obtain s1 where s1: "?seq = Inr s1"
    by (cases ?seq) (simp_all add: nextRow_def)
  have ok1: "streamOK s1"
  proof (cases "jumpKind s = jumpNone")
    case True
    with s1 obtain s0 where
      s0: "(if patternRowsRemain s = 0 then nextPattern s else Inr s) = Inr s0" and
      e: "s1 = s0\<lparr>patternRowIndex := patternRowIndex s0 + 1,
                   patternRowsRemain := patternRowsRemain s0 - 1\<rparr>"
      by (auto split: sum.splits)
    from s0 assms(2) have "streamOK s0"
      by (auto simp add: nextPattern_def split: if_splits dest: selectPattern_ok)
    with e show ?thesis by (simp add: streamOK_position)
  next
    case False
    with s1 obtain s0 a b where
      s0: "selectPattern (s\<lparr>jumpKind := jumpNone\<rparr>) (jumpPattern s) = Inr s0" and
      e: "s1 = s0\<lparr>patternRowIndex := a, patternRowsRemain := b\<rparr>"
      by (auto split: sum.splits option.splits)
    from selectPattern_ok [OF s0] assms(2) have "streamOK s0"
      by (simp add: streamOK_position)
    with e show ?thesis by (simp add: streamOK_position)
  qed
  from assms(1) s1 obtain pat s3 chs where
    pat: "pattern s1 = Some pat" and
    rc: "rowChannels (s1\<lparr>rowTicksRemain := m_ticksPerRow (module s1), tickIndex := -1\<rparr>)
           (take (nat (p_numChannels pat))
              (drop (nat (p_numChannels pat * patternRowIndex s1)) (p_notes pat)))
           (channels s1) = Inr (s3, chs)" and
    s': "s' = s3\<lparr>channels := chs\<rparr>"
    by (simp add: nextRow_def Let_def split: option.splits if_splits sum.splits prod.splits)
  from ok1 pat have "list_all noteOK (p_notes pat)"
    by (simp add: streamOK_def patternOK_def)
  then have ns: "list_all noteOK (take (nat (p_numChannels pat))
              (drop (nat (p_numChannels pat * patternRowIndex s1)) (p_notes pat)))"
    by (auto simp add: list_all_iff dest!: in_set_takeD in_set_dropD)
  from ok1 have "list_all voiceOK (channels s1)" by (simp add: streamOK_def)
  from rowChannels_ok [OF rc ns] this have
    "module s3 = module s1" "pattern s3 = pattern s1" "list_all voiceOK chs"
    by simp_all
  with ok1 s' show ?thesis by (simp add: streamOK_def)
qed

lemma tickEffect_inst: "tickEffect s e ch = Inr ch' \<Longrightarrow> inst ch' = inst ch"
  by (auto simp add: tickEffect_def keyOff_def Let_def split: effectOp.splits if_splits)

lemma tickEffects_inst: "tickEffects s es ch = Inr ch' \<Longrightarrow> inst ch' = inst ch"
proof (induction es arbitrary: ch)
  case Nil
  then show ?case by simp
next
  case (Cons e es)
  from Cons.prems obtain c where c: "tickEffect s e ch = Inr c" "tickEffects s es c = Inr ch'"
    by (auto split: sum.splits)
  from Cons.IH [OF c(2)] tickEffect_inst [OF c(1)] show ?case by simp
qed

lemma envelopeTick_inst: "inst (envelopeTick ch) = inst ch"
  by (simp add: envelopeTick_def split: option.splits)

lemma tickChannel_inst:
  assumes "tickChannel lf s ch = Inr ch'"
  shows "inst ch' = inst ch"
proof -
  let ?c = "(envelopeTick ch)\<lparr>computedVolume := centerGain s (envelopeTick ch),
              arpeggioTicked := False\<rparr>"
  from assms obtain c4 where
    c4: "(if \<not> IsEmpty (effect ?c) then applyTickEffect s ?c else Inr ?c) = Inr c4"
    and r: "inst ch' = inst c4"
    by (auto simp add: tickChannel_def centerGain_def Let_def split: sum.splits if_splits)
  from c4 have "inst c4 = inst ?c"
    by (auto simp add: applyTickEffect_def split: if_splits sum.splits dest: tickEffects_inst)
  with r show ?thesis by (simp add: envelopeTick_inst)
qed

lemma tickChannels_ok:
  "tickChannels lf s chs = Inr chs' \<Longrightarrow> list_all voiceOK chs \<Longrightarrow> list_all voiceOK chs'"
proof (induction chs arbitrary: chs')
  case Nil
  then show ?case by simp
next
  case (Cons ch chs)
  from Cons.prems(1) obtain c cs where
    c: "tickChannel lf s ch = Inr c" "tickChannels lf s chs = Inr cs" "chs' = c # cs"
    by (auto split: sum.splits)
  from Cons.prems(2) have ok: "voiceOK ch" "list_all voiceOK chs" by simp_all
  from Cons.IH [OF c(2) ok(2)] tickChannel_inst [OF c(1)] ok(1) c(3) show ?case
    by (simp add: voiceOK_def)
qed

lemma nextTick_ok:
  assumes "nextTick lf s = Inr s'" and "streamOK s"
  shows "streamOK s'"
proof -
  from assms(1) obtain s1 chs where
    s1: "(if rowTicksRemain s = 0 then nextRow s else Inr s) = Inr s1" and
    chs: "tickChannels lf (s1\<lparr>rowTicksRemain := rowTicksRemain s1 - 1,
                              tickIndex := tickIndex s1 + 1\<rparr>) (channels s1) = Inr chs" and
    s': "s' = s1\<lparr>rowTicksRemain := rowTicksRemain s1 - 1, tickIndex := tickIndex s1 + 1,
                  channels := chs\<rparr>"
    by (auto simp add: nextTick_def Let_def split: sum.splits)
  from s1 assms(2) have ok1: "streamOK s1"
    by (auto split: if_splits dest: nextRow_ok)
  then have "list_all voiceOK (channels s1)" by (simp add: streamOK_def)
  from tickChannels_ok [OF chs this] ok1 s' show ?thesis by (simp add: streamOK_def)
qed

lemma ReadLoop_returns:
  assumes "0 < m_bytesPerTick (module s)" and "streamOK s"
  shows "\<exists>r. ReadLoop lf s written front b = Some r"
  using assms
proof (induction "length b" arbitrary: s written front b rule: less_induct)
  case less
  let ?t = "m_bytesPerTick (module s)"
  show ?case
  proof (cases "?t < int (length b)")
    case False
    then show ?thesis by (subst ReadLoop.simps) (simp add: Let_def)
  next
    case True
    show ?thesis
    proof (cases "nextTick lf s")
      case (Inl p)
      with True show ?thesis by (subst ReadLoop.simps) (simp add: Let_def)
    next
      case (Inr s1)
      from nextTick_ok [OF Inr less.prems(2)] have ok1: "streamOK s1" .
      from readTick_returns [OF ok1, of "take (nat ?t) b"] obtain r where
        r: "readTick s1 (take (nat ?t) b) = Some r" "\<forall>b' s'. r = Inr (b', s') \<longrightarrow> streamOK s'"
        by blast
      show ?thesis
      proof (cases r)
        case (Inl p)
        with True Inr r(1) less.prems(1) show ?thesis
          by (subst ReadLoop.simps) (simp add: Let_def)
      next
        case r2: (Inr t)
        obtain chunk s2 where t: "t = (chunk, s2)" by (cases t) auto
        with r r2 have ok2: "streamOK s2" by simp
        from nextTick_keeps [OF Inr] readTick_keeps [of s1 "take (nat ?t) b" chunk s2] r(1) r2 t
        have m: "module s2 = module s" by simp
        from True less.prems(1) have shorter: "length (drop (nat ?t) b) < length b" by auto
        from less.hyps [OF shorter, of s2 "written + ?t" "front @ chunk"] m less.prems(1) ok2
        obtain q where "ReadLoop lf s2 (written + ?t) (front @ chunk) (drop (nat ?t) b) = Some q"
          by auto
        with True Inr r(1) r2 t less.prems(1) show ?thesis
          by (subst ReadLoop.simps) (simp add: Let_def)
      qed
    qed
  qed
qed

lemma Read_returns:
  assumes "0 < m_bytesPerTick (module s)" and "streamOK s"
  shows "\<exists>r. Read lf s b = Some r"
  unfolding Read_def using assms by (rule ReadLoop_returns)

subsection \<open>The read at the cursor\<close>

text \<open>
  A voice whose cursor stands exactly at the length of its sample data passes the guard
  \<open>ch.sampleOffset > float64(len(inst.samples))\<close> and panics at the read; a cursor inside
  the data never does.
\<close>

lemma mixChannel_at_sample_end:
  assumes "inst ch = Some i" and "sampleOffset ch = real (length (i_samples i))"
  shows "mixChannel ch left right = Some (Inl IndexOutOfRange)"
  using assms by (simp add: mixChannel_def go_int_def Let_def)

lemma mixChannel_in_range:
  assumes "inst ch = Some i" and "0 \<le> sampleOffset ch"
    and "sampleOffset ch < real (length (i_samples i))"
  shows "mixChannel ch left right \<noteq> Some (Inl IndexOutOfRange)"
proof -
  from assms(2,3) have "\<lfloor>sampleOffset ch\<rfloor> < int (length (i_samples i))"
    by (simp add: floor_less_iff)
  with assms show ?thesis
    by (auto simp add: mixChannel_def go_int_def Let_def advanceSample_def
        split: option.splits sum.splits SampleLoopType.splits if_splits)
qed

text \<open>
  The same through \<open>Read\<close>, for a frequency function that makes the step of the note one
  sample per frame: the third frame of the first tick reads past the two samples.
\<close>

lemma Read_reaches_sample_end:
  assumes "lf 4608 = 44100"
  shows "Read lf ((exStream [exPattern [exNote]])
                   \<lparr>module := (exModule [exPattern [exNote]])
                      \<lparr>m_samplesPerTick := 3, m_bytesPerTick := 12\<rparr>\<rparr>)
           [0, 0, 0, 0, 0, 0, 0, 0, 0, 0, 0, 0, 0]
         = Some (Inl IndexOutOfRange)"
  using assms
  by (simp add: ex_defs model_defs ReadLoop.simps numeral_3_eq_3 floor_20_sqrt_half)

text \<open>
  A ping-pong loop that ends at the end of the sample data: the turn at \<open>loopEnd\<close> puts
  the cursor on \<open>loopEnd\<close> itself, and the next frame reads there.
\<close>

lemma pingpong_turn_at_sample_end_panics:
  "cursorOf (advanceSample exPingPongAll (exVoice\<lparr>inst := Some exPingPongAll, sampleOffset := 7/2, sampleStep := 3/4\<rparr>))
     = Some (Inr (4, True))
   \<and> mixChannel (exVoice\<lparr>inst := Some exPingPongAll, sampleOffset := 4, reverse := True\<rparr>) 0 0
     = Some (Inl IndexOutOfRange)"
  by (simp add: cursorOf_def ex_defs model_defs)

subsection \<open>Note assignment: assignNote and the loop of nextRow\<close>

text \<open>
  \<open>assignNote\<close> restarts the sample for a normal note and for a ghost note, and a note
  portamento keeps pitch and cursor. The assignment written out in \<open>nextRow\<close> restarts the
  sample only for a note that has an instrument.
\<close>

lemma assignNote_retriggers:
  assumes "assignNote ch n = Inr ch'"
    and "n_Kind n = noteNormal \<or> n_Kind n = noteGhost"
    and "\<not> Contains (n_flags n) noteHasNotePortamento"
  shows "sampleOffset ch' = 0 \<and> reverse ch' = False
         \<and> (Contains (n_flags n) noteValid \<longrightarrow> period ch' = n_period n)"
  using assms
  by (auto simp add: assignNote_def resetEnvelopes_def Let_def
      split: if_splits option.splits sum.splits)

lemma assignNote_portamento_keeps_period:
  assumes "assignNote ch n = Inr ch'" and "Contains (n_flags n) noteHasNotePortamento"
  shows "period ch' = period ch \<and> sampleOffset ch' = sampleOffset ch \<and> reverse ch' = reverse ch"
  using assms
  by (auto simp add: assignNote_def resetEnvelopes_def Let_def
      split: if_splits option.splits sum.splits)

lemma rowChannel_note_without_instrument:
  assumes "rowChannel s n ch = Inr (s', ch')" and "n_inst n = None"
  shows "sampleOffset ch' = sampleOffset ch \<and> reverse ch' = reverse ch"
proof -
  have keep: "sampleOffset (snd (rowEffect e sc)) = sampleOffset (snd sc)
              \<and> reverse (snd (rowEffect e sc)) = reverse (snd sc)" for e sc
    by (simp add: rowEffect_def keyOff_def Let_def split: effectOp.splits)
  have fold_keep: "sampleOffset (snd (fold rowEffect es sc)) = sampleOffset (snd sc)
                   \<and> reverse (snd (fold rowEffect es sc)) = reverse (snd sc)" for es sc
    by (induction es arbitrary: sc) (simp_all add: keep)
  have app: "sampleOffset ch' = sampleOffset c \<and> reverse ch' = reverse c"
    if "applyRowEffect s c = Inr (s', ch')" for c
  proof -
    from that obtain es where "fold rowEffect es (s, c) = (s', ch')"
      by (auto simp add: applyRowEffect_def split: sum.splits)
    with fold_keep [of es "(s, c)"] show ?thesis by simp
  qed
  from assms show ?thesis
    by (auto simp add: rowChannel_def Let_def split: if_splits option.splits dest!: app)
qed

lemma rowChannel_note_with_instrument:
  assumes "rowChannel s n ch = Inr (s', ch')" and "n_inst n = Some i" and "n_period n \<noteq> 0"
  shows "sampleOffset ch' = 0 \<and> reverse ch' = False \<and> period ch' = n_period n"
proof -
  have keep: "sampleOffset (snd (rowEffect e sc)) = sampleOffset (snd sc)
              \<and> reverse (snd (rowEffect e sc)) = reverse (snd sc)
              \<and> period (snd (rowEffect e sc)) = period (snd sc)" for e sc
    by (simp add: rowEffect_def keyOff_def Let_def split: effectOp.splits)
  have fold_keep: "sampleOffset (snd (fold rowEffect es sc)) = sampleOffset (snd sc)
                   \<and> reverse (snd (fold rowEffect es sc)) = reverse (snd sc)
                   \<and> period (snd (fold rowEffect es sc)) = period (snd sc)" for es sc
    by (induction es arbitrary: sc) (simp_all add: keep)
  have app: "sampleOffset ch' = sampleOffset c \<and> reverse ch' = reverse c \<and> period ch' = period c"
    if "applyRowEffect s c = Inr (s', ch')" for c
  proof -
    from that obtain es where "fold rowEffect es (s, c) = (s', ch')"
      by (auto simp add: applyRowEffect_def split: sum.splits)
    with fold_keep [of es "(s, c)"] show ?thesis by simp
  qed
  from assms show ?thesis
    by (auto simp add: rowChannel_def Let_def split: if_splits dest!: app)
qed

subsection \<open>Rewind keeps the voices\<close>

text \<open>
  For a frequency function that makes the step of the note half a sample per frame: the
  pattern is an empty row and a row with a note. A fresh stream renders silence for the
  first row; after two rendered ticks and a rewind the voice of the second row is still
  attached and sounds in the first row.
\<close>

lemma Rewind_keeps_voices:
  assumes "lf 4608 = 22050"
  shows "rendered (Read lf (exStream [exPattern [exEmptyNote, exNote]]) [0, 0, 0, 0, 0])
           = Some (Inr (4, None, [0, 0, 0, 0, 0]))
         \<and> renderedAfterRewind lf (exStream [exPattern [exEmptyNote, exNote]])
              [0, 0, 0, 0, 0, 0, 0, 0, 0] [0, 0, 0, 0, 0]
           = Some (Inr (4, None, [14, 0, 14, 0, 0]))"
  using assms
  by (simp add: ex_defs model_defs obs_defs ReadLoop.simps floor_20_sqrt_half)

subsection \<open>The key-off scenario\<close>

text \<open>
  A key-off with operand 3 on a row of six ticks, for an instrument without volume envelope:
  the voice keeps its volume on the ticks 0, 1 and 2 and is released on tick 3.
\<close>

lemma volumesOverTicks_numeral:
  "volumesOverTicks lf (numeral k) s =
     (case nextTick lf s of
        Inl p \<Rightarrow> Inl p
      | Inr s' \<Rightarrow>
          (case volumesOverTicks lf (pred_numeral k) s' of
             Inl p \<Rightarrow> Inl p
           | Inr vs \<Rightarrow> Inr (map (\<lambda>ch. (volume ch, sustain ch)) (channels s') # vs)))"
  by (simp add: numeral_eq_Suc)

lemma keyOff_scenario_six_ticks:
  "volumesOverTicks lf 6 (exKeyOffStream 3)
   = Inr [[(1, True)], [(1, True)], [(1, True)], [(0, False)], [(0, False)], [(0, False)]]"
  by (simp add: ex_defs model_defs volumesOverTicks_numeral)

section \<open>The claims\<close>

text \<open>
  C1. The claim: while mixing, the waveform of a voice is read only when its cursor is
  within the sample data; a cursor that has run past the end is skipped, and the index of
  the read is always in range. The guard of the code is
  \<open>ch.sampleOffset > float64(len(inst.samples))\<close>: a cursor exactly at the length passes
  it, and the read panics. Here the voice plays a sample of two amplitudes at one sample per
  frame: the third frame of the tick finds the cursor at 2 and the tick panics.
\<close>

theorem readTick_reads_at_sample_end:
  "sampleOffset (exVoice\<lparr>sampleOffset := 2\<rparr>) = real (length (i_samples exInst))
   \<and> mixChannel (exVoice\<lparr>sampleOffset := 2\<rparr>) 0 0 = Some (Inl IndexOutOfRange)
   \<and> readTick exTickStream [0, 0, 0, 0, 0, 0, 0, 0, 0, 0, 0, 0] = Some (Inl IndexOutOfRange)"
  by (simp add: ex_defs model_defs numeral_3_eq_3)

text \<open>
  C2. The claim: once the pattern order is exhausted, \<open>Read\<close> signals end-of-stream to
  its caller instead of advancing further. The code has no such signal: \<open>Read\<close> returns
  a nil error on every path, and the tick after the last row of the last pattern indexes the
  pattern order one past its end. Here the song is one pattern of one row, and the buffer
  has room for two ticks: the call panics.
\<close>

theorem Read_past_song_end_panics:
  "\<forall>lf. Read lf (exStream [exPattern [exEmptyNote]]) [0, 0, 0, 0, 0, 0, 0, 0, 0]
        = Some (Inl IndexOutOfRange)"
  by (simp add: ex_defs model_defs ReadLoop.simps)

text \<open>
  C3. The claim: a stream that has rendered, is rewound and renders \<open>N\<close> bytes gives the
  bytes of a fresh stream. \<open>Rewind\<close> resets five position fields only; the pending
  pattern jump and the voices stay. Here the first pattern is one row with a pattern break,
  the second one row with a note: the fresh stream renders the silent first row, the rewound
  one takes the jump that the first rendering left pending and renders the note.
\<close>

theorem Rewind_keeps_pending_jump:
  "\<forall>lf. rendered (Read lf (exStream [exPattern [exBreakNote], exPattern [exNote]]) [0, 0, 0, 0, 0])
          = Some (Inr (4, None, [0, 0, 0, 0, 0]))
      \<and> renderedAfterRewind lf (exStream [exPattern [exBreakNote], exPattern [exNote]])
            [0, 0, 0, 0, 0] [0, 0, 0, 0, 0]
          = Some (Inr (4, None, [14, 0, 14, 0, 0]))"
  by (simp add: ex_defs model_defs obs_defs ReadLoop.simps floor_20_sqrt_half)

text \<open>
  C4. The claim: \<open>Read\<close> returns \<open>bytesPerTick * (len b div bytesPerTick)\<close> bytes, so
  that a buffer of exactly one tick receives one tick. The loop of the code runs while
  \<open>len(b) > bytesPerTick\<close>: with 4 bytes per tick a buffer of 4 bytes receives nothing,
  and a buffer of 8 bytes receives one tick, its last 4 bytes untouched.
\<close>

theorem Read_exact_tick_buffer_gets_nothing:
  "\<forall>lf. m_bytesPerTick (module (exStream [exPattern [exEmptyNote]])) = 4
      \<and> rendered (Read lf (exStream [exPattern [exEmptyNote]]) [0, 0, 0, 0])
          = Some (Inr (0, None, [0, 0, 0, 0]))
      \<and> rendered (Read lf (exStream [exPattern [exEmptyNote, exEmptyNote]]) [7, 7, 7, 7, 7, 7, 7, 7])
          = Some (Inr (4, None, [0, 0, 0, 0, 7, 7, 7, 7]))"
  by (simp add: ex_defs model_defs obs_defs ReadLoop.simps)

text \<open>
  C5. The claim: a ping-pong loop reflects the overshoot at \<open>loopEnd\<close> and at
  \<open>loopStart\<close>, \<open>new cursor = loopEnd - (cursor - loopEnd)\<close>, and the cursor stays
  within the sample. The code sets the cursor to \<open>int(loopEnd) - int(cursor) % int(loopLength)\<close>
  and to \<open>int(loopStart) + int(cursor) % int(loopLength)\<close>. Forward over the loop from 10
  to 14, from 13 by 2: the cursor becomes 11, the reflection is 13. Backward over the loop
  from 0 to 4, from 1 by 5/2: the cursor becomes -1, and the read of the next frame panics.
\<close>

theorem pingpong_turn_is_no_reflection:
  "cursorOf (advanceSample exPingPong (exVoice\<lparr>sampleOffset := 13, sampleStep := 2\<rparr>))
     = Some (Inr (11, True))
   \<and> i_loopEnd exPingPong - ((13 + 2) - i_loopEnd exPingPong) = 13
   \<and> cursorOf (advanceSample exPingPongAll
        (exVoice\<lparr>sampleOffset := 1, sampleStep := 5/2, reverse := True\<rparr>))
     = Some (Inr (-1, False))
   \<and> mixChannel (exVoice\<lparr>inst := Some exPingPongAll, sampleOffset := -1, sampleStep := 5/2\<rparr>) 0 0
     = Some (Inl IndexOutOfRange)"
  by (simp add: obs_defs ex_defs model_defs)

text \<open>
  C6. The claim: a row note with a period and without note portamento, normal or ghost,
  resets the cursor to 0 and the direction to forward and sets the period. \<open>assignNote\<close>
  does so; the row loop of \<open>nextRow\<close>, which assigns the notes itself, does not for a
  ghost note (a period without an instrument): it sets the period and keeps cursor and
  direction. Here the voice stands at cursor 1, reversed.
\<close>

theorem nextRow_ghost_note_keeps_cursor:
  "n_inst exGhostNote = None \<and> n_period exGhostNote = 4608
   \<and> noteHasNotePortamento \<notin> n_flags exGhostNote
   \<and> map_sum id (\<lambda>s. map (\<lambda>ch. (sampleOffset ch, reverse ch, period ch)) (channels s))
        (nextRow ((exStream [exPattern [exGhostNote]])
                    \<lparr>channels := [exVoice\<lparr>sampleOffset := 1, reverse := True\<rparr>]\<rparr>))
      = Inr [(1, True, 4608)]
   \<and> map_sum id (\<lambda>ch. (sampleOffset ch, reverse ch, period ch))
        (assignNote (exVoice\<lparr>sampleOffset := 1, reverse := True\<rparr>) exGhostNote)
      = Inr (0, False, 4608)"
  by (simp add: ex_defs model_defs)

text \<open>
  C7, as amended. A key-off with operand 0 releases the voice when the row begins, and a
  key-off with another operand does nothing there. At tick scope the operand is compared
  with \<open>uint8(tickIndex)\<close>: the voice is released on the ticks whose index is the operand
  modulo 256, which within the first 256 ticks of a row is exactly the tick whose index
  equals the operand. The release clears \<open>sustain\<close>; it sets the volume to 0 when the voice
  has no instrument or the volume envelope of the instrument is off, and leaves the volume
  when the envelope is on.
\<close>

theorem keyOff_effect_scopes:
  "(e_op e = EffectKeyOff \<longrightarrow>
      rowEffect e (s, ch) = (s, if e_rawValue e = 0 then keyOff ch else ch)
      \<and> tickEffect s e ch
          = Inr (if tickIndex s mod 256 = uint (e_rawValue e) then keyOff ch else ch)
      \<and> (0 \<le> tickIndex s \<and> tickIndex s < 256 \<longrightarrow>
           tickEffect s e ch
             = Inr (if tickIndex s = uint (e_rawValue e) then keyOff ch else ch))
      \<and> (effectSlice s ch = Inr [e] \<longrightarrow>
           applyRowEffect s ch = Inr (s, if e_rawValue e = 0 then keyOff ch else ch)
           \<and> applyTickEffect s ch
               = Inr (if tickIndex s mod 256 = uint (e_rawValue e) then keyOff ch else ch)))
   \<and> sustain (keyOff ch) = False
   \<and> volume (keyOff ch)
       = (if (case inst ch of None \<Rightarrow> False | Some i \<Rightarrow> IsOn (i_volumeFlags i))
          then volume ch else 0)"
  by (auto simp add: rowEffect_def tickEffect_def keyOff_def go_uint8_eq_iff Let_def
      applyRowEffect_def applyTickEffect_def split: option.splits)

theorem keyOff_effect_scopes_witness:
  "e_op (exKeyOff 3) = EffectKeyOff
   \<and> tickEffect ((exStream [])\<lparr>tickIndex := 2\<rparr>) (exKeyOff 3) exVoice = Inr exVoice
   \<and> tickEffect ((exStream [])\<lparr>tickIndex := 3\<rparr>) (exKeyOff 3) exVoice = Inr (keyOff exVoice)
   \<and> tickEffect ((exStream [])\<lparr>tickIndex := 4\<rparr>) (exKeyOff 3) exVoice = Inr exVoice
   \<and> rowEffect (exKeyOff 3) (exStream [], exVoice) = (exStream [], exVoice)
   \<and> rowEffect (exKeyOff 0) (exStream [], exVoice) = (exStream [], keyOff exVoice)
   \<and> effectSlice (exKeyOffStream 3) (exVoice\<lparr>effect := \<lparr>ek_Index = 0, ek_Len = 1\<rparr>\<rparr>)
       = Inr [exKeyOff 3]
   \<and> applyTickEffect (exKeyOffStream 3) (exVoice\<lparr>effect := \<lparr>ek_Index = 0, ek_Len = 1\<rparr>\<rparr>)
       = Inr (exVoice\<lparr>effect := \<lparr>ek_Index = 0, ek_Len = 1\<rparr>\<rparr>)
   \<and> applyTickEffect ((exKeyOffStream 3)\<lparr>tickIndex := 3\<rparr>)
         (exVoice\<lparr>effect := \<lparr>ek_Index = 0, ek_Len = 1\<rparr>\<rparr>)
       = Inr (keyOff (exVoice\<lparr>effect := \<lparr>ek_Index = 0, ek_Len = 1\<rparr>\<rparr>))
   \<and> sustain (keyOff exVoice) = False \<and> volume (keyOff exVoice) = 0
   \<and> volume (keyOff (exVoice\<lparr>inst := Some exEnvInst\<rparr>)) = 1"
  using keyOff_effect_scopes [of "exKeyOff 3" "(exStream [])\<lparr>tickIndex := 2\<rparr>" exVoice]
    keyOff_effect_scopes [of "exKeyOff 3" "(exStream [])\<lparr>tickIndex := 3\<rparr>" exVoice]
    keyOff_effect_scopes [of "exKeyOff 3" "(exStream [])\<lparr>tickIndex := 4\<rparr>" exVoice]
    keyOff_effect_scopes [of "exKeyOff 3" "exStream []" exVoice]
    keyOff_effect_scopes [of "exKeyOff 0" "exStream []" exVoice]
    keyOff_effect_scopes [of "exKeyOff 0" "exStream []" "exVoice\<lparr>inst := Some exEnvInst\<rparr>"]
    keyOff_effect_scopes [of "exKeyOff 3" "exKeyOffStream 3"
      "exVoice\<lparr>effect := \<lparr>ek_Index = 0, ek_Len = 1\<rparr>\<rparr>"]
    keyOff_effect_scopes [of "exKeyOff 3" "(exKeyOffStream 3)\<lparr>tickIndex := 3\<rparr>"
      "exVoice\<lparr>effect := \<lparr>ek_Index = 0, ek_Len = 1\<rparr>\<rparr>"]
  by (simp add: ex_defs streamChannel0_def IsOn_def effectSlice_def LoadCompiled_def
      NewStream_def Rewind_def Let_def)

text \<open>
  C7, the claim as stated fails: a key-off with operand 3 releases the voice also on the
  tick of index 259.
\<close>

theorem keyOff_fires_again_after_256_ticks:
  "tickEffect ((exStream [])\<lparr>tickIndex := 259\<rparr>) (exKeyOff 3) exVoice = Inr (keyOff exVoice)
   \<and> (259::int) \<noteq> uint (e_rawValue (exKeyOff 3))
   \<and> volume (keyOff exVoice) = 0 \<and> sustain (keyOff exVoice) = False \<and> volume exVoice = 1
   \<and> sustain exVoice = True"
  by (simp add: ex_defs model_defs)

text \<open>
  C8, as amended. For a forward-looping sample with a positive \<open>loopLength\<close> and
  \<open>loopEnd = loopStart + loopLength\<close>: when the advanced cursor is at or beyond
  \<open>loopStart\<close>, the repeated subtraction ends and leaves the cursor in the interval from
  \<open>loopStart\<close> (inclusive) to \<open>loopEnd\<close> (exclusive), whatever the size of the step.
\<close>

theorem forward_loop_cursor_in_loop:
  assumes "i_loopType i = SampleLoopForward"
    and "0 < i_loopLength i"
    and "i_loopEnd i = i_loopStart i + i_loopLength i"
    and "i_loopStart i \<le> sampleOffset ch + sampleStep ch"
  shows "\<exists>off. advanceSample i ch = Some (Inr (ch\<lparr>sampleOffset := off\<rparr>))
           \<and> i_loopStart i \<le> off \<and> off < i_loopEnd i"
proof -
  let ?a = "sampleOffset ch + sampleStep ch"
  from forwardWrap_returns [OF assms(2), of ?a "i_loopEnd i"] obtain y where
    y: "forwardWrap ?a (i_loopEnd i) (i_loopLength i) = Some y" "y < i_loopEnd i"
       "i_loopEnd i \<le> ?a \<longrightarrow> i_loopEnd i - i_loopLength i \<le> y"
       "?a < i_loopEnd i \<longrightarrow> y = ?a"
    by blast
  have "i_loopStart i \<le> y"
  proof (cases "i_loopEnd i \<le> ?a")
    case True
    with y(3) assms(3) show ?thesis by simp
  next
    case False
    with y(4) assms(4) show ?thesis by simp
  qed
  with y(1,2) assms(1) show ?thesis
    by (intro exI [of _ y]) (simp add: advanceSample_def)
qed

theorem forward_loop_cursor_in_loop_witness:
  "i_loopType exForward = SampleLoopForward \<and> 0 < i_loopLength exForward
   \<and> i_loopEnd exForward = i_loopStart exForward + i_loopLength exForward
   \<and> i_loopLength exForward < sampleStep (exVoice\<lparr>sampleOffset := 12, sampleStep := 9\<rparr>)
   \<and> cursorOf (advanceSample exForward (exVoice\<lparr>sampleOffset := 12, sampleStep := 9\<rparr>))
       = Some (Inr (13, False))
   \<and> i_loopStart exForward \<le> 13 \<and> 13 < i_loopEnd exForward"
  using forward_loop_cursor_in_loop [of exForward "exVoice\<lparr>sampleOffset := 12, sampleStep := 9\<rparr>"]
  by (simp add: obs_defs ex_defs model_defs forwardWrap.simps)

text \<open>
  C8, the claim as stated fails: a note starts at cursor 0, before the loop from 10 to 14;
  after the advance by one sample the cursor is 1, outside the loop.
\<close>

theorem forward_advance_below_loop_start:
  "i_loopType exForward = SampleLoopForward
   \<and> cursorOf (advanceSample exForward (exVoice\<lparr>inst := Some exForward, sampleOffset := 0\<rparr>))
       = Some (Inr (1, False))
   \<and> \<not> (i_loopStart exForward \<le> 1)"
  by (simp add: obs_defs ex_defs model_defs forwardWrap.simps)

text \<open>
  C9. For every buffer and every stream, the byte count that \<open>Read\<close> returns is a
  multiple of \<open>bytesPerTick\<close> and at most the length of the buffer; the buffer keeps its
  length and, beyond the count, its bytes: no partial tick is written.
\<close>

theorem Read_whole_ticks:
  assumes "Read lf s b = Some (Inr (n, e, b', s'))"
  shows "m_bytesPerTick (module s) dvd n \<and> 0 \<le> n \<and> n \<le> int (length b)
         \<and> length b' = length b \<and> drop (nat n) b' = drop (nat n) b"
  using ReadLoop_count [OF assms [unfolded Read_def]]
    ReadLoop_buffer [OF assms [unfolded Read_def]]
  by simp

theorem Read_whole_ticks_witness:
  "\<forall>lf. rendered (Read lf (exStream [exPattern [exEmptyNote, exEmptyNote, exEmptyNote]])
             [7, 7, 7, 7, 7, 7, 7, 7, 7, 7, 7])
          = Some (Inr (8, None, [0, 0, 0, 0, 0, 0, 0, 0, 7, 7, 7]))
      \<and> m_bytesPerTick (module (exStream [exPattern [exEmptyNote, exEmptyNote, exEmptyNote]])) = 4
      \<and> (4::int) dvd 8 \<and> (8::int) \<le> int (length [7::8 word, 7, 7, 7, 7, 7, 7, 7, 7, 7, 7])"
proof
  fix lf
  let ?s = "exStream [exPattern [exEmptyNote, exEmptyNote, exEmptyNote]]"
  let ?b = "[7::8 word, 7, 7, 7, 7, 7, 7, 7, 7, 7, 7]"
  let ?b' = "[0::8 word, 0, 0, 0, 0, 0, 0, 0, 7, 7, 7]"
  have ev: "rendered (Read lf ?s ?b) = Some (Inr (8, None, ?b'))"
    by (simp add: ex_defs model_defs obs_defs ReadLoop.simps)
  then obtain s' where r: "Read lf ?s ?b = Some (Inr (8, None, ?b', s'))"
    by (auto simp add: rendered_def split: option.splits sum.splits)
  have m: "m_bytesPerTick (module ?s) = 4"
    by (simp add: ex_defs model_defs)
  from Read_whole_ticks [OF r] ev m
  show "rendered (Read lf ?s ?b) = Some (Inr (8, None, ?b'))
        \<and> m_bytesPerTick (module ?s) = 4
        \<and> (4::int) dvd 8 \<and> (8::int) \<le> int (length ?b)"
    by simp
qed

text \<open>
  C10. On every tick and for every voice, the gain pair \<open>computedVolume\<close> is the product
  of the global volume, the volume of the voice and its fadeout volume (as they stand after
  the row and the envelope step of the tick) with \<open>sqrt (1 - pan)\<close> and \<open>sqrt pan\<close> at
  the fixed \<open>pan = 1/2\<close>: both components are equal, and the panning of the voice has no
  part in them.
\<close>

theorem nextTick_gain_is_centered:
  assumes "nextTick lf s = Inr s'"
  shows "\<exists>s1. (if rowTicksRemain s = 0 then nextRow s else Inr s) = Inr s1
           \<and> list_all2
               (\<lambda>ch ch'. computedVolume ch' = centerGain s (envelopeTick ch)
                          \<and> fst (computedVolume ch') = snd (computedVolume ch')
                          \<and> (\<forall>p. centerGain s (envelopeTick (ch\<lparr>panning := p\<rparr>))
                                   = computedVolume ch'))
               (channels s1) (channels s')"
proof -
  from assms obtain s1 chs where
    s1: "(if rowTicksRemain s = 0 then nextRow s else Inr s) = Inr s1" and
    chs: "tickChannels lf (s1\<lparr>rowTicksRemain := rowTicksRemain s1 - 1,
                              tickIndex := tickIndex s1 + 1\<rparr>) (channels s1) = Inr chs" and
    s': "channels s' = chs"
    by (auto simp add: nextTick_def Let_def split: sum.splits)
  from s1 have vs: "volumeScaling s1 = volumeScaling s"
    by (auto split: if_splits dest: nextRow_keeps)
  have cg: "centerGain (s1\<lparr>rowTicksRemain := a, tickIndex := b\<rparr>) c = centerGain s c" for a b c
    using vs by (simp add: centerGain_def)
  from tickChannels_gain [OF chs] have
    "list_all2 (\<lambda>ch ch'. computedVolume ch' = centerGain s (envelopeTick ch)) (channels s1) chs"
    by (simp add: cg)
  then have "list_all2
               (\<lambda>ch ch'. computedVolume ch' = centerGain s (envelopeTick ch)
                          \<and> fst (computedVolume ch') = snd (computedVolume ch')
                          \<and> (\<forall>p. centerGain s (envelopeTick (ch\<lparr>panning := p\<rparr>))
                                   = computedVolume ch'))
               (channels s1) chs"
    by (rule list_all2_mono) (simp add: centerGain_equal centerGain_ignores_panning)
  with s1 s' show ?thesis by blast
qed

theorem nextTick_gain_is_centered_witness:
  "\<forall>lf. map_sum id (\<lambda>s. map computedVolume (channels s))
          (nextTick lf (exStream [exPattern [exNote]]))
        = Inr [(4 * sqrt (1 / 2) / 5, 4 * sqrt (1 / 2) / 5)]"
proof
  fix lf
  let ?s = "exStream [exPattern [exNote]]"
  have ev: "map_sum id (\<lambda>s. map computedVolume (channels s)) (nextTick lf ?s)
            = Inr [(4 * sqrt (1 / 2) / 5, 4 * sqrt (1 / 2) / 5)]"
    by (simp add: ex_defs model_defs)
  then obtain s' where h: "nextTick lf ?s = Inr s'"
    by (cases "nextTick lf ?s") auto
  from nextTick_gain_is_centered [OF h] ev
  show "map_sum id (\<lambda>s. map computedVolume (channels s)) (nextTick lf ?s)
        = Inr [(4 * sqrt (1 / 2) / 5, 4 * sqrt (1 / 2) / 5)]"
    by blast
qed

end
